theory Spec2Isabelle
  imports Main
begin

section \<open>Exceptions, values and dictionaries\<close>

text \<open>
  Every \<^verbatim>\<open>raise\<close> of the source is a value \<open>Inl e\<close> of a result type \<open>exn + 'a\<close>.
  \<open>Exception\<close> carries the message the source formats; the other constructors stand for
  the exceptions raised by Python itself or by the libraries the source calls.
\<close>

datatype exn =
    Exception string
  | KeyError string
  | NameError string
  | ValueError string
  | JSONDecodeError string
  | ClientError string

text \<open>
  \<open>retrieve_attribute\<close> returns either one physical id (a \<^verbatim>\<open>str\<close>) or a freshly built
  \<^verbatim>\<open>list\<close> of physical ids.
\<close>

datatype resolved = Scalar string | Sequence "string list"

text \<open>
  A Python \<^verbatim>\<open>dict\<close> is an association list in insertion order. Assigning to a key that
  is present replaces the value in place, assigning to a new key appends the entry; iterating
  the dict yields the keys in that order.
\<close>

type_synonym ('k, 'v) dict = "('k \<times> 'v) list"

fun dict_set :: "('k, 'v) dict \<Rightarrow> 'k \<Rightarrow> 'v \<Rightarrow> ('k, 'v) dict" where
  "dict_set [] k v = [(k, v)]"
| "dict_set ((k', v') # d) k v = (if k' = k then (k, v) # d else (k', v') # dict_set d k v)"

definition dict_keys :: "('k, 'v) dict \<Rightarrow> 'k list" where
  "dict_keys d = map fst d"

definition dict_contains :: "'k \<Rightarrow> ('k, 'v) dict \<Rightarrow> bool" where
  "dict_contains k d = (k \<in> set (dict_keys d))"

definition dict_get :: "('k, 'v) dict \<Rightarrow> 'k \<Rightarrow> 'v option" where
  "dict_get d k = map_of d k"

text \<open>The Stack Resource Index: \<^verbatim>\<open>aws:cdk:path\<close> to physical resource id.\<close>

type_synonym index = "(string, string) dict"


section \<open>The collaborators of \<^verbatim>\<open>cli.py\<close>\<close>

text \<open>
  The CloudFormation service as the source uses it through boto3. For a region and a stack
  name, \<open>list_stack_resources\<close> is the sequence of pages the paginator yields, each page
  either raising or carrying the \<^verbatim>\<open>LogicalResourceId\<close> of its summaries; pages are
  fetched lazily, so nothing after the first raising page is requested.
  \<open>describe_stack_resource\<close> either raises or yields the \<^verbatim>\<open>StackResourceDetail\<close>, of which
  the source reads \<^verbatim>\<open>PhysicalResourceId\<close> and the optional \<^verbatim>\<open>Metadata\<close> (a JSON text).
\<close>

record detail =
  PhysicalResourceId :: "string option"
  Metadata :: "string option"

record cloudformation =
  list_stack_resources :: "string \<Rightarrow> string \<Rightarrow> (exn + string list) list"
  describe_stack_resource :: "string \<Rightarrow> string \<Rightarrow> string \<Rightarrow> exn + detail"

text \<open>
  The standard-library functions the source calls are parameters of the model:
  \<^verbatim>\<open>json.loads\<close> (applied to a resource's metadata, which CloudFormation stores as a JSON
  object; the model keeps its string-valued members), \<^verbatim>\<open>fnmatch.fnmatch\<close> (name first,
  pattern second, total on strings), \<^verbatim>\<open>urllib.parse.urldefrag\<close> and
  \<^verbatim>\<open>urllib.parse.urlsplit\<close>.
\<close>

datatype split_result =
  SplitResult (sr_scheme: string) (sr_netloc: string) (sr_path: string)
    (sr_query: string) (sr_fragment: string)

record stdlib =
  json_loads :: "string \<Rightarrow> exn + (string, string) dict"
  fnmatch :: "string \<Rightarrow> string \<Rightarrow> bool"
  urldefrag :: "string \<Rightarrow> exn + string \<times> string"
  urlsplit :: "string \<Rightarrow> exn + split_result"

text \<open>
  The remote calls a run performs, in order, as a call-counting stub of the service would
  record them. One \<open>ListStackResources\<close> entry stands for one paginated enumeration.
\<close>

datatype remote_call =
    ListStackResources (call_region: string) (call_stack: string)
  | DescribeStackResource (call_region: string) (call_stack: string) string

text \<open>
  The module-level state of \<^verbatim>\<open>cli.py\<close>: the globals \<^verbatim>\<open>REGION\<close> and \<^verbatim>\<open>STACK_LOOKUP\<close>,
  together with the log of the remote calls made so far.
\<close>

record state =
  REGION :: string
  STACK_LOOKUP :: "string \<rightharpoonup> index"
  remote_log :: "remote_call list"


section \<open>Module load (\<^verbatim>\<open>cli.py\<close>, lines 1 to 15)\<close>

text \<open>
  The imports of lines 1 to 7 either raise or succeed; then \<^verbatim>\<open>os.getenv('AWS_REGION')\<close> is
  read once and the module raises when it is \<^verbatim>\<open>None\<close>.
\<close>

definition load_module :: "exn option \<Rightarrow> (string \<rightharpoonup> string) \<Rightarrow> exn + state" where
  "load_module imports environ =
     (case imports of
        Some e \<Rightarrow> Inl e
      | None \<Rightarrow>
          (case environ ''AWS_REGION'' of
             None \<Rightarrow> Inl (Exception ''AWS_REGION not set'')
           | Some region \<Rightarrow>
               Inr \<lparr>REGION = region, STACK_LOOKUP = Map.empty, remote_log = []\<rparr>))"


section \<open>\<^verbatim>\<open>retrieve_attribute\<close> (\<^verbatim>\<open>cli.py\<close>, lines 17 to 65)\<close>

text \<open>Lines 27 to 31: the nested loop over pages and summaries that fills \<^verbatim>\<open>ids\<close>.\<close>

fun collect_ids :: "(exn + string list) list \<Rightarrow> string list \<Rightarrow> exn + string list" where
  "collect_ids [] ids = Inr ids"
| "collect_ids (Inl e # pages) ids = Inl e"
| "collect_ids (Inr res # pages) ids = collect_ids pages (ids @ res)"

text \<open>
  Lines 35 to 43: the loop over \<^verbatim>\<open>ids\<close>. It carries the dict \<^verbatim>\<open>stack\<close> under construction and
  the local variable \<^verbatim>\<open>path\<close>, which line 42 assigns (it is the function's own parameter),
  and the log of remote calls. The result pairs the outcome with the log.
\<close>

fun find_paths ::
  "cloudformation \<Rightarrow> stdlib \<Rightarrow> string \<Rightarrow> string \<Rightarrow> string list \<Rightarrow> index \<Rightarrow> string \<Rightarrow>
     remote_call list \<Rightarrow> (exn + index \<times> string) \<times> remote_call list" where
  "find_paths client lib region stack_name [] stack path log = (Inr (stack, path), log)"
| "find_paths client lib region stack_name (idn # ids) stack path log =
     (let log' = log @ [DescribeStackResource region stack_name idn] in
      case describe_stack_resource client region stack_name idn of
        Inl e \<Rightarrow> (Inl e, log')
      | Inr response \<Rightarrow>
          (case PhysicalResourceId response of
             None \<Rightarrow> (Inl (KeyError ''PhysicalResourceId''), log')
           | Some physicalId \<Rightarrow>
               (case Metadata response of
                  None \<Rightarrow> find_paths client lib region stack_name ids stack path log'
                | Some text \<Rightarrow>
                    (case json_loads lib text of
                       Inl e \<Rightarrow> (Inl e, log')
                     | Inr metadata \<Rightarrow>
                         (case dict_get metadata ''aws:cdk:path'' of
                            None \<Rightarrow> find_paths client lib region stack_name ids stack path log'
                          | Some path' \<Rightarrow>
                              find_paths client lib region stack_name ids
                                (dict_set stack path' physicalId) path' log')))))"

text \<open>
  Lines 22 to 47: the body of \<^verbatim>\<open>if stack_name not in STACK_LOOKUP\<close>. The client is created
  for \<^verbatim>\<open>REGION\<close> (which makes no remote call), so every remote call is made in that region.
  The index is stored by the last statement only. The result is the value of the local
  \<^verbatim>\<open>path\<close> afterwards.
\<close>

definition build_index ::
  "cloudformation \<Rightarrow> stdlib \<Rightarrow> string \<Rightarrow> string \<Rightarrow> state \<Rightarrow> (exn + string) \<times> state" where
  "build_index client lib stack_name path g =
     (let log' = remote_log g @ [ListStackResources (REGION g) stack_name] in
      case collect_ids (list_stack_resources client (REGION g) stack_name) [] of
        Inl e \<Rightarrow> (Inl e, g\<lparr>remote_log := log'\<rparr>)
      | Inr ids \<Rightarrow>
          (case find_paths client lib (REGION g) stack_name ids [] path log' of
             (Inl e, log'') \<Rightarrow> (Inl e, g\<lparr>remote_log := log''\<rparr>)
           | (Inr (stack, path'), log'') \<Rightarrow>
               (Inr path',
                g\<lparr>STACK_LOOKUP := (STACK_LOOKUP g)(stack_name \<mapsto> stack), remote_log := log''\<rparr>)))"

text \<open>Lines 54 to 56: the loop over the keys of \<^verbatim>\<open>stack\<close> that collects the matches.\<close>

fun collect_matches ::
  "stdlib \<Rightarrow> index \<Rightarrow> string \<Rightarrow> string list \<Rightarrow> string list \<Rightarrow> exn + string list" where
  "collect_matches lib stack path [] result = Inr result"
| "collect_matches lib stack path (candidate # candidates) result =
     (if fnmatch lib candidate path then
        (case dict_get stack candidate of
           None \<Rightarrow> Inl (KeyError candidate)
         | Some physicalId \<Rightarrow> collect_matches lib stack path candidates (result @ [physicalId]))
      else collect_matches lib stack path candidates result)"

definition has_wildcards :: "string \<Rightarrow> bool" where
  "has_wildcards path = (CHR ''*'' \<in> set path \<or> CHR ''?'' \<in> set path \<or> CHR ''['' \<in> set path)"

text \<open>Lines 51 to 65: the lookup of \<^verbatim>\<open>path\<close> in the index \<^verbatim>\<open>stack\<close>.\<close>

definition lookup_path :: "stdlib \<Rightarrow> index \<Rightarrow> string \<Rightarrow> string \<Rightarrow> exn + resolved" where
  "lookup_path lib stack stack_name path =
     (if has_wildcards path then
        (case collect_matches lib stack path (dict_keys stack) [] of
           Inl e \<Rightarrow> Inl e
         | Inr result \<Rightarrow>
             if length result = 0 then
               Inl (Exception (''pattern '' @ path @ '' not found in stack '' @ stack_name))
             else Inr (Sequence result))
      else if dict_contains path stack then
        (case dict_get stack path of
           None \<Rightarrow> Inl (KeyError path)
         | Some physicalId \<Rightarrow> Inr (Scalar physicalId))
      else Inl (Exception (''path '' @ path @ '' not found in stack '' @ stack_name)))"

definition retrieve_attribute ::
  "cloudformation \<Rightarrow> stdlib \<Rightarrow> string \<Rightarrow> string \<Rightarrow> state \<Rightarrow> (exn + resolved) \<times> state" where
  "retrieve_attribute client lib stack_name path g =
     (case (if stack_name \<notin> dom (STACK_LOOKUP g) then build_index client lib stack_name path g
            else (Inr path, g)) of
        (Inl e, g') \<Rightarrow> (Inl e, g')
      | (Inr path', g') \<Rightarrow>
          (case STACK_LOOKUP g' stack_name of
             None \<Rightarrow> (Inl (KeyError stack_name), g')
           | Some stack \<Rightarrow> (lookup_path lib stack stack_name path', g')))"


section \<open>\<^verbatim>\<open>parse_cfn_uri\<close> and \<^verbatim>\<open>handle_cfn_uri\<close> (\<^verbatim>\<open>cli.py\<close>, lines 67 to 98)\<close>

text \<open>The message \<^verbatim>\<open>"Scheme '" + scheme + "' not supported."\<close> of both modules.\<close>

definition scheme_not_supported :: "string \<Rightarrow> exn" where
  "scheme_not_supported scheme =
     Exception (''Scheme '' @ [CHR 0x27] @ scheme @ [CHR 0x27] @ '' not supported.'')"

definition parse_cfn_uri :: "stdlib \<Rightarrow> string \<Rightarrow> exn + string \<times> string" where
  "parse_cfn_uri lib uri =
     (case urldefrag lib uri of
        Inl e \<Rightarrow> Inl e
      | Inr (base_uri, frag) \<Rightarrow>
          (case urlsplit lib base_uri of
             Inl e \<Rightarrow> Inl e
           | Inr base_uri_parts \<Rightarrow>
               (let scheme = sr_scheme base_uri_parts in
                if scheme \<noteq> ''cfn'' then Inl (scheme_not_supported scheme)
                else
                  Inr (sr_netloc base_uri_parts,
                       sr_netloc base_uri_parts @ sr_path base_uri_parts))))"

definition handle_cfn_uri ::
  "cloudformation \<Rightarrow> stdlib \<Rightarrow> string \<Rightarrow> state \<Rightarrow> (exn + resolved) \<times> state" where
  "handle_cfn_uri client lib uri g =
     (case parse_cfn_uri lib uri of
        Inl e \<Rightarrow> (Inl e, g)
      | Inr (stack_name, path) \<Rightarrow> retrieve_attribute client lib stack_name path g)"

text \<open>
  A resolution pass calls the resolver once per reference, in document order, on the state
  the previous call left; \<open>run_calls\<close> is the state after such a sequence of calls.
\<close>

fun run_calls ::
  "cloudformation \<Rightarrow> stdlib \<Rightarrow> (string \<times> string) list \<Rightarrow> state \<Rightarrow> state" where
  "run_calls client lib [] g = g"
| "run_calls client lib ((stack_name, path) # calls) g =
     run_calls client lib calls (snd (retrieve_attribute client lib stack_name path g))"


section \<open>\<^verbatim>\<open>main.py\<close>\<close>

text \<open>
  The names bound at module level in \<^verbatim>\<open>main.py\<close>: the imports of lines 2 to 6, the
  functions and the help texts. A name that is neither local nor bound here nor a builtin
  raises \<^verbatim>\<open>NameError\<close> when it is evaluated; Python has no builtin called \<^verbatim>\<open>urlparse\<close>.
\<close>

definition main_globals :: "string list" where
  "main_globals =
     [''boto'', ''click'', ''json'', ''urldefrag'', ''urlsplit'', ''resolve'',
      ''retrieve_attribute'', ''parse_cfn_uri'', ''handle_cfn_uri'',
      ''resolve_template_with_cfn_support'', ''aws_profile_help_text'', ''minify_help_text'',
      ''output_file_optional_help_text'', ''parameter_help_text'', ''cli'']"

definition load_global :: "string list \<Rightarrow> string \<Rightarrow> exn + unit" where
  "load_global globals name = (if name \<in> set globals then Inr () else Inl (NameError name))"

text \<open>\<^verbatim>\<open>s.split(sep)\<close> for a one-character separator, and \<^verbatim>\<open>s.strip(chars)\<close>.\<close>

fun str_split :: "string \<Rightarrow> char \<Rightarrow> string list" where
  "str_split [] sep = [[]]"
| "str_split (c # s) sep =
     (if c = sep then [] # str_split s sep
      else (case str_split s sep of [] \<Rightarrow> [[c]] | part # parts \<Rightarrow> (c # part) # parts))"

definition str_strip :: "string \<Rightarrow> string \<Rightarrow> string" where
  "str_strip s chars =
     rev (dropWhile (\<lambda>c. c \<in> set chars) (rev (dropWhile (\<lambda>c. c \<in> set chars) s)))"

text \<open>
  \<^verbatim>\<open>parse_cfn_uri\<close> of \<^verbatim>\<open>main.py\<close> (lines 31 to 77). Lines 42 and 43 evaluate the global
  name \<^verbatim>\<open>urlparse\<close> before calling its attribute. The result is
  \<^verbatim>\<open>(stack_name, logical_name, attribute, region)\<close>.
\<close>

definition main_parse_cfn_uri ::
  "stdlib \<Rightarrow> string \<Rightarrow> exn + string \<times> string \<times> string option \<times> string option" where
  "main_parse_cfn_uri lib uri =
     (case load_global main_globals ''urlparse'' of
        Inl e \<Rightarrow> Inl e
      | Inr _ \<Rightarrow>
     (case urldefrag lib uri of
        Inl e \<Rightarrow> Inl e
      | Inr (base_uri, frag) \<Rightarrow>
     (case load_global main_globals ''urlparse'' of
        Inl e \<Rightarrow> Inl e
      | Inr _ \<Rightarrow>
     (case urlsplit lib base_uri of
        Inl e \<Rightarrow> Inl e
      | Inr base_uri_parts \<Rightarrow>
          if sr_scheme base_uri_parts \<noteq> ''cfn'' then
            Inl (scheme_not_supported (sr_scheme base_uri_parts))
          else
            (let netloc_parts = str_split (sr_netloc base_uri_parts) CHR ''@'';
                 path_parts = str_split (str_strip (sr_path base_uri_parts) ''/'') CHR ''/''
             in
             if length netloc_parts > 2 then
               Inl (Exception (''URI contains unexpected components in net location ''
                      @ [CHR 0x27] @ sr_netloc base_uri_parts @ [CHR 0x27] @ ''.''))
             else
               (case netloc_parts of
                  [] \<Rightarrow> Inl (Exception ''URI is missing stack name.'')
                | stack_name # netloc_rest \<Rightarrow>
                    (let region = (case netloc_rest of [] \<Rightarrow> None | r # _ \<Rightarrow> Some r) in
                     if length path_parts > 2 then
                       Inl (Exception (''URI contains unexpected components in query path ''
                              @ [CHR 0x27] @ sr_path base_uri_parts @ [CHR 0x27] @ ''.''))
                     else
                       (case path_parts of
                          [] \<Rightarrow> Inl (Exception
                                  ''URI is missing logical name for stack resource.'')
                        | logical_name # path_rest \<Rightarrow>
                            (let attribute =
                                   (case path_rest of [] \<Rightarrow> None | a # _ \<Rightarrow> Some a)
                             in Inr (stack_name, logical_name, attribute, region))))))))))"

text \<open>
  \<^verbatim>\<open>retrieve_attribute\<close> of \<^verbatim>\<open>main.py\<close> (lines 9 to 28): the boto connection for the
  region (or the default one) describes the resource; the three wrappers are unwrapped and the
  requested attribute of the \<^verbatim>\<open>StackResourceDetail\<close> is returned.
\<close>

definition main_retrieve_attribute ::
  "(string option \<Rightarrow> string \<Rightarrow> string \<Rightarrow> exn + (string, string) dict) \<Rightarrow>
     string \<Rightarrow> string \<Rightarrow> string \<Rightarrow> string option \<Rightarrow> exn + string" where
  "main_retrieve_attribute boto stack_name logical_name attribute region =
     (case boto region stack_name logical_name of
        Inl e \<Rightarrow> Inl e
      | Inr sr_detail \<Rightarrow>
          (case dict_get sr_detail attribute of
             None \<Rightarrow> Inl (KeyError attribute)
           | Some v \<Rightarrow> Inr v))"

text \<open>\<^verbatim>\<open>handle_cfn_uri\<close> of \<^verbatim>\<open>main.py\<close> (lines 80 to 105), the handler registered for \<^verbatim>\<open>cfn\<close>.\<close>

definition main_handle_cfn_uri ::
  "(string option \<Rightarrow> string \<Rightarrow> string \<Rightarrow> exn + (string, string) dict) \<Rightarrow>
     stdlib \<Rightarrow> string \<Rightarrow> exn + string" where
  "main_handle_cfn_uri boto lib uri =
     (case main_parse_cfn_uri lib uri of
        Inl e \<Rightarrow> Inl e
      | Inr (stack_name, logical_name, attribute, region) \<Rightarrow>
          main_retrieve_attribute boto stack_name logical_name
            (case attribute of None \<Rightarrow> ''PhysicalResourceID'' | Some a \<Rightarrow> a) region)"


section \<open>Notions used in the properties\<close>

text \<open>
  The physical ids of exactly the entries of an index whose key matches a pattern, in the
  order of the index.
\<close>

definition matching_ids :: "stdlib \<Rightarrow> index \<Rightarrow> string \<Rightarrow> string list" where
  "matching_ids lib stack path = map snd (filter (\<lambda>entry. fnmatch lib (fst entry) path) stack)"

text \<open>
  A resource whose detail fetch, field accesses and metadata decoding all go through without
  an exception.
\<close>

definition detail_ok :: "cloudformation \<Rightarrow> stdlib \<Rightarrow> string \<Rightarrow> string \<Rightarrow> string \<Rightarrow> bool" where
  "detail_ok client lib region stack_name idn =
     (case describe_stack_resource client region stack_name idn of
        Inl e \<Rightarrow> False
      | Inr response \<Rightarrow>
          PhysicalResourceId response \<noteq> None \<and>
          (case Metadata response of
             None \<Rightarrow> True
           | Some text \<Rightarrow> (case json_loads lib text of Inl e \<Rightarrow> False | Inr metadata \<Rightarrow> True)))"

text \<open>
  The structural path and the physical id of a resource whose detail record has metadata with
  an \<^verbatim>\<open>aws:cdk:path\<close> member; \<open>None\<close> for a resource without metadata or without that member.
\<close>

definition cdk_entry ::
  "cloudformation \<Rightarrow> stdlib \<Rightarrow> string \<Rightarrow> string \<Rightarrow> string \<Rightarrow> (string \<times> string) option" where
  "cdk_entry client lib region stack_name idn =
     (case describe_stack_resource client region stack_name idn of
        Inl e \<Rightarrow> None
      | Inr response \<Rightarrow>
          (case (PhysicalResourceId response, Metadata response) of
             (Some physicalId, Some text) \<Rightarrow>
               (case json_loads lib text of
                  Inl e \<Rightarrow> None
                | Inr metadata \<Rightarrow>
                    (case dict_get metadata ''aws:cdk:path'' of
                       None \<Rightarrow> None
                     | Some p \<Rightarrow> Some (p, physicalId)))
           | _ \<Rightarrow> None))"

definition cdk_entries ::
  "cloudformation \<Rightarrow> stdlib \<Rightarrow> string \<Rightarrow> string \<Rightarrow> string list \<Rightarrow> (string \<times> string) list" where
  "cdk_entries client lib region stack_name ids =
     List.map_filter (cdk_entry client lib region stack_name) ids"

text \<open>The dict after assigning the entries in order, as the loop of lines 35 to 43 does.\<close>

definition set_entries :: "index \<Rightarrow> (string \<times> string) list \<Rightarrow> index" where
  "set_entries stack entries = foldl (\<lambda>d entry. dict_set d (fst entry) (snd entry)) stack entries"

text \<open>The remote calls of one complete build, in order.\<close>

definition build_calls :: "string \<Rightarrow> string \<Rightarrow> string list \<Rightarrow> remote_call list" where
  "build_calls region stack_name ids =
     ListStackResources region stack_name # map (DescribeStackResource region stack_name) ids"


section \<open>The standard library on concrete inputs\<close>

text \<open>
  \<^verbatim>\<open>fnmatch.fnmatch\<close> on a POSIX system, where \<^verbatim>\<open>os.path.normcase\<close> is the identity: \<^verbatim>\<open>*\<close>
  matches any run of characters, \<^verbatim>\<open>?\<close> any one character, \<^verbatim>\<open>[seq]\<close> and \<^verbatim>\<open>[!seq]\<close> one
  character in or not in the set, with ranges \<^verbatim>\<open>a-z\<close>; a \<^verbatim>\<open>[\<close> that is never closed stands
  for itself.
\<close>

definition bracket_split :: "string \<Rightarrow> (string \<times> string) option" where
  "bracket_split pat =
     (let neg = (if pat \<noteq> [] \<and> hd pat = CHR ''!'' then [CHR ''!''] else []);
          pat1 = drop (length neg) pat;
          first = (if pat1 \<noteq> [] \<and> hd pat1 = CHR '']'' then [CHR '']''] else []);
          pat2 = drop (length first) pat1;
          body = takeWhile (\<lambda>c. c \<noteq> CHR '']'') pat2;
          pat3 = dropWhile (\<lambda>c. c \<noteq> CHR '']'') pat2
      in if pat3 = [] then None else Some (neg @ first @ body, tl pat3))"

fun in_class :: "char \<Rightarrow> string \<Rightarrow> bool" where
  "in_class x [] = False"
| "in_class x [a] = (x = a)"
| "in_class x [a, b] = (x = a \<or> x = b)"
| "in_class x (a # b # c # stuff) =
     (if b = CHR ''-'' then
        ((of_char a :: nat) \<le> of_char x \<and> (of_char x :: nat) \<le> of_char c) \<or> in_class x stuff
      else x = a \<or> in_class x (b # c # stuff))"

definition class_matches :: "string \<Rightarrow> char \<Rightarrow> bool" where
  "class_matches stuff x =
     (if stuff \<noteq> [] \<and> hd stuff = CHR ''!'' then \<not> in_class x (tl stuff) else in_class x stuff)"

fun glob_match :: "string \<Rightarrow> string \<Rightarrow> bool" where
  "glob_match [] name = (name = [])"
| "glob_match (c # pat) [] = (if c = CHR ''*'' then glob_match pat [] else False)"
| "glob_match (c # pat) (x # name) =
     (if c = CHR ''*'' then glob_match pat (x # name) \<or> glob_match (c # pat) name
      else if c = CHR ''?'' then glob_match pat name
      else if c = CHR ''['' then
        (case bracket_split pat of
           None \<Rightarrow> x = CHR ''['' \<and> glob_match pat name
         | Some (stuff, pat') \<Rightarrow> class_matches stuff x \<and> glob_match pat' name)
      else x = c \<and> glob_match pat name)"

definition py_fnmatch :: "string \<Rightarrow> string \<Rightarrow> bool" where
  "py_fnmatch name pat = glob_match pat name"

text \<open>
  \<^verbatim>\<open>urllib.parse.urlsplit\<close> on a URL without leading blanks or control characters: the scheme
  is what precedes the first colon when that is a letter followed by scheme characters, in
  lower case; the authority follows \<^verbatim>\<open>//\<close> up to the next \<^verbatim>\<open>/\<close>, \<^verbatim>\<open>?\<close> or \<^verbatim>\<open>#\<close>; then the
  fragment is cut at the first \<^verbatim>\<open>#\<close> and the query at the first \<^verbatim>\<open>?\<close>.
\<close>

definition ascii_lower :: "char \<Rightarrow> char" where
  "ascii_lower c =
     (case map_of (zip ''ABCDEFGHIJKLMNOPQRSTUVWXYZ'' ''abcdefghijklmnopqrstuvwxyz'') c of
        None \<Rightarrow> c
      | Some l \<Rightarrow> l)"

definition ascii_letters :: string where
  "ascii_letters = ''abcdefghijklmnopqrstuvwxyzABCDEFGHIJKLMNOPQRSTUVWXYZ''"

definition scheme_chars :: string where
  "scheme_chars = ascii_letters @ ''0123456789+-.''"

definition py_urlsplit :: "string \<Rightarrow> exn + split_result" where
  "py_urlsplit url =
     (let prefix = takeWhile (\<lambda>c. c \<noteq> CHR '':'') url;
          has_scheme = (prefix \<noteq> url \<and> prefix \<noteq> [] \<and> hd prefix \<in> set ascii_letters \<and>
                        list_all (\<lambda>c. c \<in> set scheme_chars) prefix);
          scheme = (if has_scheme then map ascii_lower prefix else []);
          url1 = (if has_scheme then drop (length prefix + 1) url else url);
          has_netloc = (take 2 url1 = ''//'');
          netloc = (if has_netloc then takeWhile (\<lambda>c. c \<notin> set ''/?#'') (drop 2 url1) else []);
          url2 = (if has_netloc then dropWhile (\<lambda>c. c \<notin> set ''/?#'') (drop 2 url1) else url1);
          url3 = takeWhile (\<lambda>c. c \<noteq> CHR ''#'') url2;
          fragment = drop (length url3 + 1) url2;
          url4 = takeWhile (\<lambda>c. c \<noteq> CHR ''?'') url3;
          query = drop (length url4 + 1) url3
      in if (CHR ''['' \<in> set netloc) \<noteq> (CHR '']'' \<in> set netloc) then
           Inl (ValueError ''Invalid IPv6 URL'')
         else Inr (SplitResult scheme netloc url4 query fragment))"

text \<open>
  \<^verbatim>\<open>urllib.parse.urlunsplit\<close>, and \<^verbatim>\<open>urllib.parse.urldefrag\<close>, which returns its argument
  when it has no \<^verbatim>\<open>#\<close> and otherwise reassembles the split URL without the fragment.
\<close>

definition uses_netloc :: "string list" where
  "uses_netloc =
     ['''', ''ftp'', ''http'', ''gopher'', ''nntp'', ''telnet'', ''imap'', ''wais'', ''file'',
      ''mms'', ''https'', ''shttp'', ''snews'', ''prospero'', ''rtsp'', ''rtspu'', ''rsync'',
      ''svn'', ''svn+ssh'', ''sftp'', ''nfs'', ''git'', ''git+ssh'', ''ws'', ''wss'']"

definition py_urlunsplit :: "split_result \<Rightarrow> string" where
  "py_urlunsplit parts =
     (let url = sr_path parts;
          url1 = (if sr_netloc parts \<noteq> [] \<or>
                     (sr_scheme parts \<noteq> [] \<and> sr_scheme parts \<in> set uses_netloc \<and>
                      take 2 url \<noteq> ''//'')
                  then ''//'' @ sr_netloc parts @
                         (if url \<noteq> [] \<and> hd url \<noteq> CHR ''/'' then CHR ''/'' # url else url)
                  else url);
          url2 = (if sr_scheme parts \<noteq> [] then sr_scheme parts @ '':'' @ url1 else url1);
          url3 = (if sr_query parts \<noteq> [] then url2 @ ''?'' @ sr_query parts else url2)
      in if sr_fragment parts \<noteq> [] then url3 @ ''#'' @ sr_fragment parts else url3)"

definition py_urldefrag :: "string \<Rightarrow> exn + string \<times> string" where
  "py_urldefrag url =
     (if CHR ''#'' \<in> set url then
        (case py_urlsplit url of
           Inl e \<Rightarrow> Inl e
         | Inr parts \<Rightarrow>
             Inr (py_urlunsplit
                    (SplitResult (sr_scheme parts) (sr_netloc parts) (sr_path parts)
                       (sr_query parts) []),
                  sr_fragment parts))
      else Inr (url, []))"


section \<open>An example stack\<close>

text \<open>
  The stack \<^verbatim>\<open>Stack\<close> has the resources \<^verbatim>\<open>A\<close> and \<^verbatim>\<open>B\<close> on one page, with the structural
  paths \<^verbatim>\<open>Stack/A\<close> and \<^verbatim>\<open>Stack/B\<close> and the physical ids \<^verbatim>\<open>id1\<close> and \<^verbatim>\<open>id2\<close>; any other
  stack does not exist. \<open>ex_loads\<close> is \<^verbatim>\<open>json.loads\<close> on the two metadata texts.
\<close>

definition ex_metadata :: "string \<Rightarrow> string" where
  "ex_metadata p = ''{\"aws:cdk:path\": \"'' @ p @ ''\"}''"

definition ex_loads :: "string \<Rightarrow> exn + (string, string) dict" where
  "ex_loads text =
     (if text = ex_metadata ''Stack/A'' then Inr [(''aws:cdk:path'', ''Stack/A'')]
      else if text = ex_metadata ''Stack/B'' then Inr [(''aws:cdk:path'', ''Stack/B'')]
      else Inl (JSONDecodeError text))"

definition ex_lib :: stdlib where
  "ex_lib = \<lparr>json_loads = ex_loads, fnmatch = py_fnmatch,
             urldefrag = py_urldefrag, urlsplit = py_urlsplit\<rparr>"

definition ex_pages :: "string \<Rightarrow> string \<Rightarrow> (exn + string list) list" where
  "ex_pages region stack_name =
     (if stack_name = ''Stack'' then [Inr [''A'', ''B'']]
      else [Inl (ClientError ''Stack does not exist'')])"

definition ex_client :: cloudformation where
  "ex_client =
     \<lparr>list_stack_resources = ex_pages,
      describe_stack_resource = (\<lambda>region stack_name idn.
        if stack_name = ''Stack'' \<and> idn = ''A'' then
          Inr \<lparr>PhysicalResourceId = Some ''id1'', Metadata = Some (ex_metadata ''Stack/A'')\<rparr>
        else if stack_name = ''Stack'' \<and> idn = ''B'' then
          Inr \<lparr>PhysicalResourceId = Some ''id2'', Metadata = Some (ex_metadata ''Stack/B'')\<rparr>
        else Inl (ClientError ''Resource does not exist''))\<rparr>"

text \<open>The same stack when the detail fetch of \<^verbatim>\<open>B\<close> fails.\<close>

definition ex_failing :: cloudformation where
  "ex_failing =
     \<lparr>list_stack_resources = ex_pages,
      describe_stack_resource = (\<lambda>region stack_name idn.
        if stack_name = ''Stack'' \<and> idn = ''A'' then
          Inr \<lparr>PhysicalResourceId = Some ''id1'', Metadata = Some (ex_metadata ''Stack/A'')\<rparr>
        else Inl (ClientError ''Rate exceeded''))\<rparr>"

text \<open>The same stack when both resources carry the structural path \<^verbatim>\<open>Stack/A\<close>.\<close>

definition ex_shared :: cloudformation where
  "ex_shared =
     \<lparr>list_stack_resources = ex_pages,
      describe_stack_resource = (\<lambda>region stack_name idn.
        if stack_name = ''Stack'' \<and> idn = ''A'' then
          Inr \<lparr>PhysicalResourceId = Some ''id1'', Metadata = Some (ex_metadata ''Stack/A'')\<rparr>
        else if stack_name = ''Stack'' \<and> idn = ''B'' then
          Inr \<lparr>PhysicalResourceId = Some ''id2'', Metadata = Some (ex_metadata ''Stack/A'')\<rparr>
        else Inl (ClientError ''Resource does not exist''))\<rparr>"

text \<open>The state right after module load, and the state with the index of the stack cached.\<close>

definition ex_loaded :: state where
  "ex_loaded = \<lparr>REGION = ''eu-west-1'', STACK_LOOKUP = Map.empty, remote_log = []\<rparr>"

definition ex_index :: index where
  "ex_index = [(''Stack/A'', ''id1''), (''Stack/B'', ''id2'')]"

definition ex_cached :: state where
  "ex_cached =
     \<lparr>REGION = ''eu-west-1'', STACK_LOOKUP = [''Stack'' \<mapsto> ex_index], remote_log = []\<rparr>"


section \<open>Lookup in a cached index\<close>

lemma collect_matches_keys:
  "set candidates \<subseteq> set (dict_keys stack) \<Longrightarrow>
   collect_matches lib stack path candidates result =
     Inr (result @ map (\<lambda>k. the (map_of stack k)) (filter (\<lambda>k. fnmatch lib k path) candidates))"
proof (induction candidates arbitrary: result)
  case Nil
  show ?case by simp
next
  case (Cons c cs)
  from Cons.prems have "c \<in> fst ` set stack" by (simp add: dict_keys_def)
  then obtain v where v: "map_of stack c = Some v"
    by (metis domD dom_map_of_conv_image_fst)
  from Cons.prems have sub: "set cs \<subseteq> set (dict_keys stack)" by simp
  show ?case using Cons.IH [OF sub] v by (simp add: dict_get_def)
qed

lemma map_of_distinct_keys:
  "distinct (map fst d) \<Longrightarrow>
   map (\<lambda>k. the (map_of d k)) (filter P (map fst d)) = map snd (filter (\<lambda>kv. P (fst kv)) d)"
proof (induction d)
  case Nil
  show ?case by simp
next
  case (Cons kv d)
  obtain k v where kv: "kv = (k, v)" by (cases kv)
  from Cons.prems kv have notin: "k \<notin> fst ` set d" and dist: "distinct (map fst d)" by auto
  have "map (\<lambda>k'. the (map_of (kv # d) k')) (filter P (map fst d))
      = map (\<lambda>k'. the (map_of d k')) (filter P (map fst d))"
    using notin kv by (auto simp add: image_iff)
  then show ?case using Cons.IH [OF dist] kv by simp
qed

lemma collect_matches_all:
  "collect_matches lib stack path (dict_keys stack) [] =
     Inr (map (\<lambda>k. the (map_of stack k)) (filter (\<lambda>k. fnmatch lib k path) (dict_keys stack)))"
  using collect_matches_keys [of "dict_keys stack" stack lib path "[]"] by simp

lemma collect_matches_distinct:
  "distinct (dict_keys stack) \<Longrightarrow>
   collect_matches lib stack path (dict_keys stack) [] = Inr (matching_ids lib stack path)"
  unfolding collect_matches_all matching_ids_def
  using map_of_distinct_keys [of stack "\<lambda>k. fnmatch lib k path"]
  by (simp add: dict_keys_def)

lemma retrieve_attribute_cached:
  "STACK_LOOKUP g stack_name = Some stack \<Longrightarrow>
   retrieve_attribute client lib stack_name path g = (lookup_path lib stack stack_name path, g)"
  by (simp add: retrieve_attribute_def dom_def)

lemma lookup_path_exact:
  "\<not> has_wildcards path \<Longrightarrow>
   lookup_path lib stack stack_name path =
     (case map_of stack path of
        None \<Rightarrow> Inl (Exception (''path '' @ path @ '' not found in stack '' @ stack_name))
      | Some physicalId \<Rightarrow> Inr (Scalar physicalId))"
proof (cases "map_of stack path")
  case None
  assume nw: "\<not> has_wildcards path"
  from None have "path \<notin> fst ` set stack" by (simp add: map_of_eq_None_iff)
  then show ?thesis using None nw by (simp add: lookup_path_def dict_contains_def dict_keys_def)
next
  case (Some v)
  assume nw: "\<not> has_wildcards path"
  from Some have "path \<in> fst ` set stack" by (metis map_of_eq_None_iff option.distinct(1))
  then show ?thesis using Some nw
    by (simp add: lookup_path_def dict_contains_def dict_keys_def dict_get_def)
qed

lemma lookup_path_glob:
  "has_wildcards path \<Longrightarrow>
   lookup_path lib stack stack_name path =
     (let result = map (\<lambda>k. the (map_of stack k))
                     (filter (\<lambda>k. fnmatch lib k path) (dict_keys stack))
      in if result = [] then
           Inl (Exception (''pattern '' @ path @ '' not found in stack '' @ stack_name))
         else Inr (Sequence result))"
  by (simp add: lookup_path_def collect_matches_all Let_def)

text \<open>
  Claim C4. With the index of the stack in the cache, a path without wildcards fails exactly
  when it is not a key of the index, with the message \<^verbatim>\<open>path ... not found in stack ...\<close>;
  a path with a wildcard fails exactly when no key of the index matches it, with the message
  \<^verbatim>\<open>pattern ... not found in stack ...\<close>; in every other case a value is returned: a
  scalar for a present key, a non-empty sequence for a matching pattern.
\<close>

theorem cached_lookup_fails_exactly_when_absent:
  assumes "STACK_LOOKUP g stack_name = Some stack"
  shows "(\<not> has_wildcards path \<longrightarrow>
            (path \<notin> set (dict_keys stack) \<longrightarrow>
               fst (retrieve_attribute client lib stack_name path g) =
                 Inl (Exception (''path '' @ path @ '' not found in stack '' @ stack_name))) \<and>
            (path \<in> set (dict_keys stack) \<longrightarrow>
               (\<exists>physicalId. fst (retrieve_attribute client lib stack_name path g) =
                  Inr (Scalar physicalId)))) \<and>
         (has_wildcards path \<longrightarrow>
            ((\<forall>k \<in> set (dict_keys stack). \<not> fnmatch lib k path) \<longrightarrow>
               fst (retrieve_attribute client lib stack_name path g) =
                 Inl (Exception (''pattern '' @ path @ '' not found in stack '' @ stack_name))) \<and>
            ((\<exists>k \<in> set (dict_keys stack). fnmatch lib k path) \<longrightarrow>
               (\<exists>result. result \<noteq> [] \<and>
                  fst (retrieve_attribute client lib stack_name path g) =
                    Inr (Sequence result))))"
proof -
  have r: "fst (retrieve_attribute client lib stack_name path g) =
             lookup_path lib stack stack_name path"
    using retrieve_attribute_cached [OF assms] by simp
  have exact_absent: "map_of stack path = None" if "path \<notin> set (dict_keys stack)"
    using that by (simp add: dict_keys_def map_of_eq_None_iff)
  have exact_present: "\<exists>v. map_of stack path = Some v" if "path \<in> set (dict_keys stack)"
    using that by (metis dict_keys_def list.set_map map_of_eq_None_iff not_Some_eq)
  have glob_empty:
    "filter (\<lambda>k. fnmatch lib k path) (dict_keys stack) = []"
    if "\<forall>k \<in> set (dict_keys stack). \<not> fnmatch lib k path"
    using that by (simp add: filter_empty_conv)
  have glob_nonempty:
    "filter (\<lambda>k. fnmatch lib k path) (dict_keys stack) \<noteq> []"
    if "\<exists>k \<in> set (dict_keys stack). fnmatch lib k path"
    using that by (simp add: filter_empty_conv)
  show ?thesis
    unfolding r
    using exact_absent exact_present glob_empty glob_nonempty
    by (auto simp add: lookup_path_exact lookup_path_glob Let_def)
qed

theorem cached_lookup_fails_exactly_when_absent_witness:
  "STACK_LOOKUP ex_cached ''Stack'' = Some ex_index \<and>
   fst (retrieve_attribute ex_client ex_lib ''Stack'' ''Stack/C'' ex_cached) =
     Inl (Exception ''path Stack/C not found in stack Stack'') \<and>
   (\<exists>physicalId. fst (retrieve_attribute ex_client ex_lib ''Stack'' ''Stack/A'' ex_cached) =
      Inr (Scalar physicalId)) \<and>
   fst (retrieve_attribute ex_client ex_lib ''Stack'' ''Stack/Z*'' ex_cached) =
     Inl (Exception ''pattern Stack/Z* not found in stack Stack'') \<and>
   (\<exists>result. result \<noteq> [] \<and>
      fst (retrieve_attribute ex_client ex_lib ''Stack'' ''Stack/*'' ex_cached) =
        Inr (Sequence result))"
proof -
  have c: "STACK_LOOKUP ex_cached ''Stack'' = Some ex_index" by (simp add: ex_cached_def)
  have keys: "dict_keys ex_index = [''Stack/A'', ''Stack/B'']"
    by (simp add: dict_keys_def ex_index_def)
  have w1: "\<not> has_wildcards ''Stack/C''" "\<not> has_wildcards ''Stack/A''"
    "has_wildcards ''Stack/Z*''" "has_wildcards ''Stack/*''"
    by (simp_all add: has_wildcards_def)
  have m: "\<not> fnmatch ex_lib ''Stack/A'' ''Stack/Z*''" "\<not> fnmatch ex_lib ''Stack/B'' ''Stack/Z*''"
    "fnmatch ex_lib ''Stack/A'' ''Stack/*''"
    by (simp_all add: ex_lib_def py_fnmatch_def)
  show ?thesis
    using c w1 m
      cached_lookup_fails_exactly_when_absent [OF c, of "''Stack/C''" ex_client ex_lib]
      cached_lookup_fails_exactly_when_absent [OF c, of "''Stack/A''" ex_client ex_lib]
      cached_lookup_fails_exactly_when_absent [OF c, of "''Stack/Z*''" ex_client ex_lib]
      cached_lookup_fails_exactly_when_absent [OF c, of "''Stack/*''" ex_client ex_lib]
    by (simp add: keys)
qed

text \<open>
  Claim C2, as stated, at a pattern that no key matches: the claim has the call return the
  sequence of the ids of the matching keys (here the empty one); the code raises.
\<close>

theorem cached_glob_without_match_counterexample:
  "STACK_LOOKUP ex_cached ''Stack'' = Some ex_index \<and>
   has_wildcards ''Stack/Z*'' \<and>
   fst (retrieve_attribute ex_client ex_lib ''Stack'' ''Stack/Z*'' ex_cached) \<noteq>
     Inr (Sequence (matching_ids ex_lib ex_index ''Stack/Z*''))"
  by code_simp

text \<open>
  Claim C2, amended. With the index of the stack in the cache (a dict, so its keys are
  distinct): a path without wildcards that is a key yields the one physical id stored under
  it, as a scalar; a path with a wildcard that at least one key matches yields the sequence
  of the physical ids of exactly the matching keys, in the order of the index.
\<close>

theorem cached_lookup_result:
  assumes "STACK_LOOKUP g stack_name = Some stack" and "distinct (dict_keys stack)"
  shows "(\<not> has_wildcards path \<longrightarrow>
            (\<forall>physicalId. dict_get stack path = Some physicalId \<longrightarrow>
               fst (retrieve_attribute client lib stack_name path g) = Inr (Scalar physicalId))) \<and>
         (has_wildcards path \<longrightarrow> matching_ids lib stack path \<noteq> [] \<longrightarrow>
            fst (retrieve_attribute client lib stack_name path g) =
              Inr (Sequence (matching_ids lib stack path)))"
proof -
  have r: "fst (retrieve_attribute client lib stack_name path g) =
             lookup_path lib stack stack_name path"
    using retrieve_attribute_cached [OF assms(1)] by simp
  have glob: "lookup_path lib stack stack_name path = Inr (Sequence (matching_ids lib stack path))"
    if "has_wildcards path" and "matching_ids lib stack path \<noteq> []"
    using that collect_matches_distinct [OF assms(2), of lib path]
    by (simp add: lookup_path_def)
  show ?thesis
    unfolding r using glob by (simp add: lookup_path_exact dict_get_def)
qed

theorem cached_lookup_result_witness:
  "STACK_LOOKUP ex_cached ''Stack'' = Some ex_index \<and> distinct (dict_keys ex_index) \<and>
   fst (retrieve_attribute ex_client ex_lib ''Stack'' ''Stack/A'' ex_cached) =
     Inr (Scalar ''id1'') \<and>
   fst (retrieve_attribute ex_client ex_lib ''Stack'' ''Stack/*'' ex_cached) =
     Inr (Sequence [''id1'', ''id2''])"
proof -
  have c: "STACK_LOOKUP ex_cached ''Stack'' = Some ex_index" by (simp add: ex_cached_def)
  have d: "distinct (dict_keys ex_index)" by (simp add: dict_keys_def ex_index_def)
  have w: "\<not> has_wildcards ''Stack/A''" "has_wildcards ''Stack/*''"
    by (simp_all add: has_wildcards_def)
  have a: "dict_get ex_index ''Stack/A'' = Some ''id1''"
    by (simp add: dict_get_def ex_index_def)
  have m: "matching_ids ex_lib ex_index ''Stack/*'' = [''id1'', ''id2'']"
    by (simp add: matching_ids_def ex_index_def ex_lib_def py_fnmatch_def)
  show ?thesis
    using c d w a m
      cached_lookup_result [OF c d, of "''Stack/A''" ex_client ex_lib]
      cached_lookup_result [OF c d, of "''Stack/*''" ex_client ex_lib]
    by simp
qed

section \<open>The URI parser\<close>



text \<open>
  Claim C9. In \<^verbatim>\<open>main.py\<close> the name \<^verbatim>\<open>urlparse\<close> is not bound, so \<^verbatim>\<open>parse_cfn_uri\<close> raises
  \<^verbatim>\<open>NameError\<close> on every URI, whatever the library would answer, and so does the handler
  registered for \<^verbatim>\<open>cfn\<close>, which never returns a value.
\<close>

theorem main_parse_cfn_uri_raises_NameError:
  "main_parse_cfn_uri lib uri = Inl (NameError ''urlparse'') \<and>
   main_handle_cfn_uri boto lib uri = Inl (NameError ''urlparse'')"
proof -
  have "load_global main_globals ''urlparse'' = Inl (NameError ''urlparse'')"
    by (simp add: load_global_def main_globals_def)
  then have "main_parse_cfn_uri lib uri = Inl (NameError ''urlparse'')"
    by (simp add: main_parse_cfn_uri_def)
  then show ?thesis by (simp add: main_handle_cfn_uri_def)
qed

section \<open>The path that is looked up after a build\<close>

text \<open>
  Claim C1 at a call that builds the index. The stack has the paths \<^verbatim>\<open>Stack/A\<close> and
  \<^verbatim>\<open>Stack/B\<close>; the call asks for \<^verbatim>\<open>Stack/C\<close>, which the index it builds does not hold, and
  returns the physical id of \<^verbatim>\<open>Stack/B\<close>: line 42 has assigned the last resource's path to
  \<^verbatim>\<open>path\<close>.
\<close>

theorem path_rebound_during_build:
  "STACK_LOOKUP ex_loaded ''Stack'' = None \<and>
   STACK_LOOKUP (snd (retrieve_attribute ex_client ex_lib ''Stack'' ''Stack/C'' ex_loaded))
     ''Stack'' = Some ex_index \<and>
   lookup_path ex_lib ex_index ''Stack'' ''Stack/C'' =
     Inl (Exception ''path Stack/C not found in stack Stack'') \<and>
   fst (retrieve_attribute ex_client ex_lib ''Stack'' ''Stack/C'' ex_loaded) =
     Inr (Scalar ''id2'')"
  by code_simp

text \<open>
  Claim C8 within one pass. The same reference \<^verbatim>\<open>Stack/A\<close> is resolved twice: the first
  call builds the index and returns \<^verbatim>\<open>id2\<close>, the second finds the index cached and
  returns \<^verbatim>\<open>id1\<close>.
\<close>

theorem same_reference_two_values:
  "fst (retrieve_attribute ex_client ex_lib ''Stack'' ''Stack/A'' ex_loaded) =
     Inr (Scalar ''id2'') \<and>
   fst (retrieve_attribute ex_client ex_lib ''Stack'' ''Stack/A''
          (snd (retrieve_attribute ex_client ex_lib ''Stack'' ''Stack/A'' ex_loaded))) =
     Inr (Scalar ''id1'')"
  by code_simp

section \<open>Building an index\<close>

subsection \<open>The enumeration\<close>

lemma collect_ids_pages:
  "collect_ids (map Inr ps) ids = Inr (ids @ concat ps)"
  by (induction ps arbitrary: ids) simp_all

lemma collect_ids_append:
  "collect_ids (map Inr ps @ pages) ids = collect_ids pages (ids @ concat ps)"
  by (induction ps arbitrary: ids) simp_all

lemma collect_ids_first_error:
  "collect_ids (map Inr ps @ Inl e # pages) ids = Inl e"
  by (simp add: collect_ids_append)

lemma pages_split:
  "(\<exists>ps. pages = map Inr ps) \<or> (\<exists>ps e rest. pages = map Inr ps @ Inl e # rest)"
proof (induction pages)
  case Nil
  show ?case by simp
next
  case (Cons page pages)
  show ?case
  proof (cases page)
    case (Inl e)
    then have "page # pages = map Inr [] @ Inl e # pages" by simp
    then have "\<exists>ps e' rest. page # pages = map Inr ps @ Inl e' # rest" by (intro exI)
    then show ?thesis by (rule disjI2)
  next
    case (Inr res)
    from Cons.IH show ?thesis
    proof
      assume "\<exists>ps. pages = map Inr ps"
      then obtain ps where "pages = map Inr ps" ..
      then have "page # pages = map Inr (res # ps)" using Inr by simp
      then have "\<exists>ps'. page # pages = map Inr ps'" by (rule exI)
      then show ?thesis by (rule disjI1)
    next
      assume "\<exists>ps e rest. pages = map Inr ps @ Inl e # rest"
      then obtain ps e rest where "pages = map Inr ps @ Inl e # rest" by blast
      then have "page # pages = map Inr (res # ps) @ Inl e # rest" using Inr by simp
      then have "\<exists>ps' e' rest'. page # pages = map Inr ps' @ Inl e' # rest'" by (intro exI)
      then show ?thesis by (rule disjI2)
    qed
  qed
qed

subsection \<open>One resource\<close>

lemma find_paths_step_ok:
  assumes "detail_ok client lib region stack_name idn"
  shows "find_paths client lib region stack_name (idn # ids) stack path log =
           find_paths client lib region stack_name ids
             (case cdk_entry client lib region stack_name idn of
                None \<Rightarrow> stack | Some (p, physicalId) \<Rightarrow> dict_set stack p physicalId)
             (case cdk_entry client lib region stack_name idn of
                None \<Rightarrow> path | Some (p, physicalId) \<Rightarrow> p)
             (log @ [DescribeStackResource region stack_name idn])"
  using assms
  by (auto simp add: detail_ok_def cdk_entry_def Let_def split: sum.splits option.splits)

lemma find_paths_step_error:
  assumes "\<not> detail_ok client lib region stack_name idn"
  shows "\<exists>e. find_paths client lib region stack_name (idn # ids) stack path log =
           (Inl e, log @ [DescribeStackResource region stack_name idn])"
  using assms
  by (auto simp add: detail_ok_def Let_def split: sum.splits option.splits)

lemma find_paths_step_raises:
  assumes "describe_stack_resource client region stack_name idn = Inl e"
  shows "find_paths client lib region stack_name (idn # ids) stack path log =
           (Inl e, log @ [DescribeStackResource region stack_name idn])"
  using assms by (simp add: Let_def)

subsection \<open>The loop\<close>

lemma find_paths_all_ok:
  assumes "\<forall>idn \<in> set ids. detail_ok client lib region stack_name idn"
  shows "find_paths client lib region stack_name ids stack path log =
           (Inr (set_entries stack (cdk_entries client lib region stack_name ids),
                 last (path # map fst (cdk_entries client lib region stack_name ids))),
            log @ map (DescribeStackResource region stack_name) ids)"
  using assms
proof (induction ids arbitrary: stack path log)
  case Nil
  show ?case by (simp add: cdk_entries_def set_entries_def List.map_filter_simps)
next
  case (Cons idn ids)
  from Cons.prems have ok: "detail_ok client lib region stack_name idn"
    and rest: "\<forall>i \<in> set ids. detail_ok client lib region stack_name i" by simp_all
  show ?case
  proof (cases "cdk_entry client lib region stack_name idn")
    case None
    then show ?thesis
      using find_paths_step_ok [OF ok] Cons.IH [OF rest]
      by (simp add: cdk_entries_def set_entries_def List.map_filter_simps)
  next
    case (Some entry)
    then show ?thesis
      using find_paths_step_ok [OF ok] Cons.IH [OF rest]
      by (cases entry) (simp add: cdk_entries_def set_entries_def List.map_filter_simps)
  qed
qed

lemma find_paths_append:
  assumes "\<forall>idn \<in> set ids1. detail_ok client lib region stack_name idn"
  shows "find_paths client lib region stack_name (ids1 @ ids2) stack path log =
           find_paths client lib region stack_name ids2
             (set_entries stack (cdk_entries client lib region stack_name ids1))
             (last (path # map fst (cdk_entries client lib region stack_name ids1)))
             (log @ map (DescribeStackResource region stack_name) ids1)"
  using assms
proof (induction ids1 arbitrary: stack path log)
  case Nil
  show ?case by (simp add: cdk_entries_def set_entries_def List.map_filter_simps)
next
  case (Cons idn ids)
  from Cons.prems have ok: "detail_ok client lib region stack_name idn"
    and rest: "\<forall>i \<in> set ids. detail_ok client lib region stack_name i" by simp_all
  show ?case
  proof (cases "cdk_entry client lib region stack_name idn")
    case None
    then show ?thesis
      using find_paths_step_ok [OF ok] Cons.IH [OF rest]
      by (simp add: cdk_entries_def set_entries_def List.map_filter_simps)
  next
    case (Some entry)
    then show ?thesis
      using find_paths_step_ok [OF ok] Cons.IH [OF rest]
      by (cases entry) (simp add: cdk_entries_def set_entries_def List.map_filter_simps)
  qed
qed

lemma find_paths_first_raise:
  assumes "\<forall>i \<in> set ids1. detail_ok client lib region stack_name i"
    and "describe_stack_resource client region stack_name idn = Inl e"
  shows "find_paths client lib region stack_name (ids1 @ idn # ids2) stack path log =
           (Inl e, log @ map (DescribeStackResource region stack_name) (ids1 @ [idn]))"
  unfolding find_paths_append [OF assms(1)] find_paths_step_raises [OF assms(2)] by simp

lemma find_paths_some_error:
  assumes "\<exists>idn \<in> set ids. \<not> detail_ok client lib region stack_name idn"
  shows "\<exists>e n. n < length ids \<and>
           find_paths client lib region stack_name ids stack path log =
             (Inl e, log @ map (DescribeStackResource region stack_name) (take (Suc n) ids))"
  using assms
proof (induction ids arbitrary: stack path log)
  case Nil
  then show ?case by simp
next
  case (Cons idn ids)
  show ?case
  proof (cases "detail_ok client lib region stack_name idn")
    case False
    from find_paths_step_error [OF False] obtain e where
      "find_paths client lib region stack_name (idn # ids) stack path log =
         (Inl e, log @ [DescribeStackResource region stack_name idn])" by blast
    then have "0 < length (idn # ids) \<and>
      find_paths client lib region stack_name (idn # ids) stack path log =
        (Inl e, log @ map (DescribeStackResource region stack_name) (take (Suc 0) (idn # ids)))"
      by simp
    then show ?thesis by blast
  next
    case True
    with Cons.prems have "\<exists>i \<in> set ids. \<not> detail_ok client lib region stack_name i" by auto
    from Cons.IH [OF this] obtain e n where n: "n < length ids"
      and r: "find_paths client lib region stack_name ids
                (case cdk_entry client lib region stack_name idn of
                   None \<Rightarrow> stack | Some (p, physicalId) \<Rightarrow> dict_set stack p physicalId)
                (case cdk_entry client lib region stack_name idn of
                   None \<Rightarrow> path | Some (p, physicalId) \<Rightarrow> p)
                (log @ [DescribeStackResource region stack_name idn]) =
              (Inl e, (log @ [DescribeStackResource region stack_name idn]) @
                        map (DescribeStackResource region stack_name) (take (Suc n) ids))"
      by blast
    have "Suc n < length (idn # ids) \<and>
      find_paths client lib region stack_name (idn # ids) stack path log =
        (Inl e, log @ map (DescribeStackResource region stack_name) (take (Suc (Suc n)) (idn # ids)))"
      unfolding find_paths_step_ok [OF True] r using n by simp
    then show ?thesis by blast
  qed
qed

subsection \<open>Assignments to a dict\<close>

lemma dict_set_key_list:
  "dict_keys (dict_set d k v) =
     (if k \<in> set (dict_keys d) then dict_keys d else dict_keys d @ [k])"
proof (induction d)
  case Nil
  show ?case by (simp add: dict_keys_def)
next
  case (Cons entry d)
  obtain k' v' where entry: "entry = (k', v')" by (cases entry)
  show ?case
  proof (cases "k' = k")
    case True
    then show ?thesis using entry by (simp add: dict_keys_def)
  next
    case False
    have "dict_keys (dict_set (entry # d) k v) = k' # dict_keys (dict_set d k v)"
      using False entry by (simp add: dict_keys_def)
    also have "\<dots> = (if k \<in> set (dict_keys (entry # d)) then dict_keys (entry # d)
                       else dict_keys (entry # d) @ [k])"
      unfolding Cons.IH using False entry by (simp add: dict_keys_def)
    finally show ?thesis .
  qed
qed

lemma dict_set_keys: "set (dict_keys (dict_set d k v)) = insert k (set (dict_keys d))"
  by (auto simp add: dict_set_key_list)

lemma dict_set_distinct: "distinct (dict_keys d) \<Longrightarrow> distinct (dict_keys (dict_set d k v))"
  by (simp add: dict_set_key_list)

lemma dict_set_map_of: "map_of (dict_set d k v) = (map_of d)(k \<mapsto> v)"
  by (induction d) (auto simp add: fun_eq_iff)

lemma dict_set_fresh: "k \<notin> set (dict_keys d) \<Longrightarrow> dict_set d k v = d @ [(k, v)]"
  by (induction d) (auto simp add: dict_keys_def)

lemma set_entries_Cons:
  "set_entries d (entry # entries) = set_entries (dict_set d (fst entry) (snd entry)) entries"
  by (simp add: set_entries_def)

lemma set_entries_keys:
  "set (dict_keys (set_entries d entries)) = set (dict_keys d) \<union> fst ` set entries"
proof (induction entries arbitrary: d)
  case Nil
  show ?case by (simp add: set_entries_def)
next
  case (Cons entry entries)
  show ?case unfolding set_entries_Cons Cons.IH by (simp add: dict_set_keys)
qed

lemma set_entries_distinct:
  "distinct (dict_keys d) \<Longrightarrow> distinct (dict_keys (set_entries d entries))"
proof (induction entries arbitrary: d)
  case Nil
  then show ?case by (simp add: set_entries_def)
next
  case (Cons entry entries)
  show ?case unfolding set_entries_Cons
    by (rule Cons.IH) (rule dict_set_distinct [OF Cons.prems])
qed

lemma set_entries_map_of:
  "map_of (set_entries d entries) = map_of d ++ map_of (rev entries)"
proof (induction entries arbitrary: d)
  case Nil
  show ?case by (simp add: set_entries_def)
next
  case (Cons entry entries)
  have "map_of (set_entries d (entry # entries)) =
          (map_of d)(fst entry \<mapsto> snd entry) ++ map_of (rev entries)"
    unfolding set_entries_Cons Cons.IH by (simp add: dict_set_map_of)
  also have "\<dots> = map_of d ++ map_of (rev (entry # entries))"
    by (cases entry) (simp add: map_add_upd_left fun_eq_iff map_add_def split: option.splits)
  finally show ?case .
qed

lemma set_entries_fresh:
  "distinct (map fst (d @ entries)) \<Longrightarrow> set_entries d entries = d @ entries"
proof (induction entries arbitrary: d)
  case Nil
  show ?case by (simp add: set_entries_def)
next
  case (Cons entry entries)
  from Cons.prems have fresh: "fst entry \<notin> set (dict_keys d)"
    by (auto simp add: dict_keys_def)
  have step: "dict_set d (fst entry) (snd entry) = d @ [entry]"
    using dict_set_fresh [OF fresh, of "snd entry"] by simp
  have "distinct (map fst ((d @ [entry]) @ entries))" using Cons.prems by simp
  from Cons.IH [OF this] show ?case unfolding set_entries_Cons step by simp
qed

subsection \<open>The whole build\<close>

lemma build_index_page_error:
  assumes "list_stack_resources client (REGION g) stack_name = map Inr ps @ Inl e # rest"
  shows "build_index client lib stack_name path g =
           (Inl e, g\<lparr>remote_log := remote_log g @ [ListStackResources (REGION g) stack_name]\<rparr>)"
  using assms by (simp add: build_index_def collect_ids_first_error)

lemma build_index_ok:
  assumes "list_stack_resources client (REGION g) stack_name = map Inr ps"
    and "\<forall>idn \<in> set (concat ps). detail_ok client lib (REGION g) stack_name idn"
  shows "build_index client lib stack_name path g =
           (Inr (last (path # map fst (cdk_entries client lib (REGION g) stack_name (concat ps)))),
            g\<lparr>STACK_LOOKUP := (STACK_LOOKUP g)(stack_name \<mapsto>
                  set_entries [] (cdk_entries client lib (REGION g) stack_name (concat ps))),
              remote_log := remote_log g @ build_calls (REGION g) stack_name (concat ps)\<rparr>)"
  using assms(1) find_paths_all_ok [OF assms(2)]
  by (simp add: build_index_def collect_ids_pages build_calls_def del: find_paths.simps)

lemma build_index_detail_error:
  assumes "list_stack_resources client (REGION g) stack_name = map Inr ps"
    and "\<exists>idn \<in> set (concat ps). \<not> detail_ok client lib (REGION g) stack_name idn"
  shows "\<exists>e n. n < length (concat ps) \<and>
           build_index client lib stack_name path g =
             (Inl e, g\<lparr>remote_log := remote_log g @
                        build_calls (REGION g) stack_name (take (Suc n) (concat ps))\<rparr>)"
proof -
  from find_paths_some_error [OF assms(2)] obtain e n where n: "n < length (concat ps)"
    and r: "find_paths client lib (REGION g) stack_name (concat ps) [] path
              (remote_log g @ [ListStackResources (REGION g) stack_name]) =
            (Inl e, (remote_log g @ [ListStackResources (REGION g) stack_name]) @
               map (DescribeStackResource (REGION g) stack_name) (take (Suc n) (concat ps)))"
    by blast
  have "build_index client lib stack_name path g =
          (Inl e, g\<lparr>remote_log := remote_log g @
                     build_calls (REGION g) stack_name (take (Suc n) (concat ps))\<rparr>)"
    using assms(1) r
    by (simp add: build_index_def collect_ids_pages build_calls_def del: find_paths.simps)
  with n show ?thesis by blast
qed

lemma build_index_first_raise:
  assumes "list_stack_resources client (REGION g) stack_name = map Inr ps"
    and "concat ps = ids1 @ idn # ids2"
    and "\<forall>i \<in> set ids1. detail_ok client lib (REGION g) stack_name i"
    and "describe_stack_resource client (REGION g) stack_name idn = Inl e"
  shows "build_index client lib stack_name path g =
           (Inl e, g\<lparr>remote_log := remote_log g @
                      build_calls (REGION g) stack_name (ids1 @ [idn])\<rparr>)"
  using assms(1,2) find_paths_first_raise [OF assms(3,4)]
  by (simp add: build_index_def collect_ids_pages build_calls_def del: find_paths.simps)

lemma retrieve_attribute_uncached_error:
  assumes "STACK_LOOKUP g stack_name = None"
    and "build_index client lib stack_name path g = (Inl e, g')"
  shows "retrieve_attribute client lib stack_name path g = (Inl e, g')"
  using assms by (simp add: retrieve_attribute_def dom_def)

lemma retrieve_attribute_uncached_ok:
  assumes "STACK_LOOKUP g stack_name = None"
    and "build_index client lib stack_name path g = (Inr path', g')"
    and "STACK_LOOKUP g' stack_name = Some stack"
  shows "retrieve_attribute client lib stack_name path g =
           (lookup_path lib stack stack_name path', g')"
  using assms by (simp add: retrieve_attribute_def dom_def)

text \<open>What one call does to the state, whatever it returns.\<close>

lemma retrieve_attribute_effect:
  "\<exists>ids stack.
     REGION (snd (retrieve_attribute client lib stack_name path g)) = REGION g \<and>
     (STACK_LOOKUP g stack_name \<noteq> None \<longrightarrow>
        snd (retrieve_attribute client lib stack_name path g) = g) \<and>
     (STACK_LOOKUP g stack_name = None \<longrightarrow>
        remote_log (snd (retrieve_attribute client lib stack_name path g)) =
          remote_log g @ build_calls (REGION g) stack_name ids \<and>
        (STACK_LOOKUP (snd (retrieve_attribute client lib stack_name path g)) = STACK_LOOKUP g \<or>
         STACK_LOOKUP (snd (retrieve_attribute client lib stack_name path g)) =
           (STACK_LOOKUP g)(stack_name \<mapsto> stack)))"
proof (cases "STACK_LOOKUP g stack_name")
  case (Some stack)
  then show ?thesis using retrieve_attribute_cached [OF Some] by simp
next
  case None
  let ?pages = "list_stack_resources client (REGION g) stack_name"
  from pages_split [of ?pages] show ?thesis
  proof
    assume "\<exists>ps e rest. ?pages = map Inr ps @ Inl e # rest"
    then obtain ps e rest where "?pages = map Inr ps @ Inl e # rest" by blast
    from retrieve_attribute_uncached_error [OF None build_index_page_error [OF this]]
    have "retrieve_attribute client lib stack_name path g =
            (Inl e, g\<lparr>remote_log := remote_log g @ build_calls (REGION g) stack_name []\<rparr>)"
      by (simp add: build_calls_def)
    then show ?thesis using None by auto
  next
    assume "\<exists>ps. ?pages = map Inr ps"
    then obtain ps where ps: "?pages = map Inr ps" ..
    show ?thesis
    proof (cases "\<forall>idn \<in> set (concat ps). detail_ok client lib (REGION g) stack_name idn")
      case True
      let ?stack = "set_entries [] (cdk_entries client lib (REGION g) stack_name (concat ps))"
      let ?g' = "g\<lparr>STACK_LOOKUP := (STACK_LOOKUP g)(stack_name \<mapsto> ?stack),
                   remote_log := remote_log g @ build_calls (REGION g) stack_name (concat ps)\<rparr>"
      have "STACK_LOOKUP ?g' stack_name = Some ?stack" by simp
      from retrieve_attribute_uncached_ok [OF None build_index_ok [OF ps True] this]
      have "snd (retrieve_attribute client lib stack_name path g) = ?g'" by simp
      then show ?thesis using None by auto
    next
      case False
      then have "\<exists>idn \<in> set (concat ps). \<not> detail_ok client lib (REGION g) stack_name idn"
        by simp
      from build_index_detail_error [OF ps this] obtain e n where
        "build_index client lib stack_name path g =
           (Inl e, g\<lparr>remote_log := remote_log g @
                      build_calls (REGION g) stack_name (take (Suc n) (concat ps))\<rparr>)"
        by blast
      from retrieve_attribute_uncached_error [OF None this]
      show ?thesis using None by auto
    qed
  qed
qed

lemma build_calls_region:
  "c \<in> set (build_calls region stack_name ids) \<Longrightarrow>
   call_region c = region \<and> call_stack c = stack_name"
  by (auto simp add: build_calls_def)

section \<open>Failure during a build\<close>

text \<open>
  Claim C6. For a stack that has no index in the cache: when a page of the enumeration
  raises, or when the detail fetch of a resource raises after the resources before it went
  through, the call returns that very error and \<^verbatim>\<open>STACK_LOOKUP\<close> is what it was; and
  whenever any page raises or the detail fetch of any enumerated resource raises, the call
  returns an error and \<^verbatim>\<open>STACK_LOOKUP\<close> is what it was.
\<close>

theorem build_failure_leaves_cache:
  assumes "STACK_LOOKUP g stack_name = None"
  shows "(list_stack_resources client (REGION g) stack_name = map Inr ps @ Inl e # rest \<longrightarrow>
            fst (retrieve_attribute client lib stack_name path g) = Inl e \<and>
            STACK_LOOKUP (snd (retrieve_attribute client lib stack_name path g)) =
              STACK_LOOKUP g) \<and>
         (list_stack_resources client (REGION g) stack_name = map Inr ps \<and>
          concat ps = earlier @ idn # later \<and>
          (\<forall>i \<in> set earlier. detail_ok client lib (REGION g) stack_name i) \<and>
          describe_stack_resource client (REGION g) stack_name idn = Inl e \<longrightarrow>
            fst (retrieve_attribute client lib stack_name path g) = Inl e \<and>
            STACK_LOOKUP (snd (retrieve_attribute client lib stack_name path g)) =
              STACK_LOOKUP g) \<and>
         ((\<exists>e'. Inl e' \<in> set (list_stack_resources client (REGION g) stack_name)) \<or>
          (\<exists>ids. collect_ids (list_stack_resources client (REGION g) stack_name) [] = Inr ids \<and>
             (\<exists>i \<in> set ids. \<exists>e'.
                describe_stack_resource client (REGION g) stack_name i = Inl e')) \<longrightarrow>
            (\<exists>e'. fst (retrieve_attribute client lib stack_name path g) = Inl e') \<and>
            STACK_LOOKUP (snd (retrieve_attribute client lib stack_name path g)) =
              STACK_LOOKUP g)"
proof (intro conjI impI)
  assume pages: "list_stack_resources client (REGION g) stack_name = map Inr ps @ Inl e # rest"
  from retrieve_attribute_uncached_error [OF assms build_index_page_error [OF pages]]
  show "fst (retrieve_attribute client lib stack_name path g) = Inl e"
    and "STACK_LOOKUP (snd (retrieve_attribute client lib stack_name path g)) = STACK_LOOKUP g"
    by simp_all
next
  assume a: "list_stack_resources client (REGION g) stack_name = map Inr ps \<and>
    concat ps = earlier @ idn # later \<and>
    (\<forall>i \<in> set earlier. detail_ok client lib (REGION g) stack_name i) \<and>
    describe_stack_resource client (REGION g) stack_name idn = Inl e"
  then have b: "build_index client lib stack_name path g =
      (Inl e, g\<lparr>remote_log := remote_log g @
                 build_calls (REGION g) stack_name (earlier @ [idn])\<rparr>)"
    using build_index_first_raise [of client g stack_name ps earlier idn later lib e path] by blast
  from retrieve_attribute_uncached_error [OF assms b]
  show "fst (retrieve_attribute client lib stack_name path g) = Inl e"
    and "STACK_LOOKUP (snd (retrieve_attribute client lib stack_name path g)) = STACK_LOOKUP g"
    by simp_all
next
  let ?pages = "list_stack_resources client (REGION g) stack_name"
  assume a: "(\<exists>e'. Inl e' \<in> set ?pages) \<or>
    (\<exists>ids. collect_ids ?pages [] = Inr ids \<and>
       (\<exists>i \<in> set ids. \<exists>e'. describe_stack_resource client (REGION g) stack_name i = Inl e'))"
  have "\<exists>e' g'. build_index client lib stack_name path g = (Inl e', g') \<and>
          STACK_LOOKUP g' = STACK_LOOKUP g"
  proof -
    from pages_split [of ?pages] show ?thesis
    proof
      assume "\<exists>ps e rest. ?pages = map Inr ps @ Inl e # rest"
      then obtain ps' e' rest' where "?pages = map Inr ps' @ Inl e' # rest'" by blast
      from build_index_page_error [OF this, of lib path] show ?thesis by simp
    next
      assume "\<exists>ps. ?pages = map Inr ps"
      then obtain ps' where ps': "?pages = map Inr ps'" ..
      then have no_page: "\<not> (\<exists>e'. Inl e' \<in> set ?pages)" by auto
      with a obtain ids i e' where ids: "collect_ids ?pages [] = Inr ids" and i: "i \<in> set ids"
        and raise: "describe_stack_resource client (REGION g) stack_name i = Inl e'" by blast
      from ids ps' have "ids = concat ps'" by (simp add: collect_ids_pages)
      moreover have "\<not> detail_ok client lib (REGION g) stack_name i"
        using raise by (simp add: detail_ok_def)
      ultimately have "\<exists>idn \<in> set (concat ps'). \<not> detail_ok client lib (REGION g) stack_name idn"
        using i by blast
      from build_index_detail_error [OF ps' this, of path] show ?thesis by auto
    qed
  qed
  then obtain e' g' where b: "build_index client lib stack_name path g = (Inl e', g')"
    and c: "STACK_LOOKUP g' = STACK_LOOKUP g" by blast
  from retrieve_attribute_uncached_error [OF assms b] c
  show "\<exists>e'. fst (retrieve_attribute client lib stack_name path g) = Inl e'"
    and "STACK_LOOKUP (snd (retrieve_attribute client lib stack_name path g)) = STACK_LOOKUP g"
    by simp_all
qed

theorem build_failure_leaves_cache_witness:
  "STACK_LOOKUP ex_loaded ''Stack'' = None \<and>
   list_stack_resources ex_failing (REGION ex_loaded) ''Stack'' = map Inr [[''A'', ''B'']] \<and>
   concat [[''A'', ''B'']] = [''A''] @ ''B'' # [] \<and>
   detail_ok ex_failing ex_lib (REGION ex_loaded) ''Stack'' ''A'' \<and>
   describe_stack_resource ex_failing (REGION ex_loaded) ''Stack'' ''B'' =
     Inl (ClientError ''Rate exceeded'') \<and>
   fst (retrieve_attribute ex_failing ex_lib ''Stack'' ''Stack/A'' ex_loaded) =
     Inl (ClientError ''Rate exceeded'') \<and>
   STACK_LOOKUP (snd (retrieve_attribute ex_failing ex_lib ''Stack'' ''Stack/A'' ex_loaded)) =
     STACK_LOOKUP ex_loaded"
proof -
  have u: "STACK_LOOKUP ex_loaded ''Stack'' = None" by (simp add: ex_loaded_def)
  have p: "list_stack_resources ex_failing (REGION ex_loaded) ''Stack'' = map Inr [[''A'', ''B'']]"
    by (simp add: ex_failing_def ex_pages_def)
  have c: "concat [[''A'', ''B'']] = [''A''] @ ''B'' # []" by simp
  have ok: "\<forall>i \<in> set [''A'']. detail_ok ex_failing ex_lib (REGION ex_loaded) ''Stack'' i"
    by (simp add: detail_ok_def ex_failing_def ex_lib_def ex_loads_def)
  have r: "describe_stack_resource ex_failing (REGION ex_loaded) ''Stack'' ''B'' =
             Inl (ClientError ''Rate exceeded'')"
    by (simp add: ex_failing_def)
  show ?thesis
    using u p c ok r
      build_failure_leaves_cache [OF u, where client = ex_failing and lib = ex_lib
        and path = "''Stack/A''" and ps = "[[''A'', ''B'']]" and earlier = "[''A'']"
        and idn = "''B''" and later = "[]" and e = "ClientError ''Rate exceeded''"]
    by simp
qed

section \<open>The index that a build stores\<close>

text \<open>
  Claim C7, as stated, on a stack whose two resources carry the same structural path: the
  detail record of \<^verbatim>\<open>A\<close> has the path \<^verbatim>\<open>Stack/A\<close> and the physical id \<^verbatim>\<open>id1\<close>, yet the
  index that is built maps \<^verbatim>\<open>Stack/A\<close> to \<^verbatim>\<open>id2\<close>, the id of \<^verbatim>\<open>B\<close>.
\<close>

theorem shared_path_counterexample:
  "cdk_entry ex_shared ex_lib (REGION ex_loaded) ''Stack'' ''A'' = Some (''Stack/A'', ''id1'') \<and>
   STACK_LOOKUP (snd (retrieve_attribute ex_shared ex_lib ''Stack'' ''Stack/A'' ex_loaded))
     ''Stack'' = Some [(''Stack/A'', ''id2'')]"
  by code_simp

text \<open>
  Claim C7, amended. When the enumeration and every detail record go through, the index
  stored for the stack has as keys exactly the structural paths found in the detail records
  of the enumerated resources (each key once), and maps each of them to the physical id of
  the last enumerated resource that carries it; when no two resources carry the same path,
  the index is the list of the pairs of path and physical id of those resources, in the order
  of the enumeration. A resource without metadata or without the \<^verbatim>\<open>aws:cdk:path\<close> member has
  no such pair and contributes nothing.
\<close>

theorem built_index_entries:
  assumes "STACK_LOOKUP g stack_name = None"
    and "list_stack_resources client (REGION g) stack_name = map Inr ps"
    and "\<forall>idn \<in> set (concat ps). detail_ok client lib (REGION g) stack_name idn"
  shows "\<exists>stack.
           STACK_LOOKUP (snd (retrieve_attribute client lib stack_name path g)) stack_name =
             Some stack \<and>
           distinct (dict_keys stack) \<and>
           set (dict_keys stack) =
             fst ` set (cdk_entries client lib (REGION g) stack_name (concat ps)) \<and>
           (\<forall>p. dict_get stack p =
                  map_of (rev (cdk_entries client lib (REGION g) stack_name (concat ps))) p) \<and>
           (distinct (map fst (cdk_entries client lib (REGION g) stack_name (concat ps))) \<longrightarrow>
              stack = cdk_entries client lib (REGION g) stack_name (concat ps))"
proof -
  let ?entries = "cdk_entries client lib (REGION g) stack_name (concat ps)"
  let ?stack = "set_entries [] ?entries"
  let ?g' = "g\<lparr>STACK_LOOKUP := (STACK_LOOKUP g)(stack_name \<mapsto> ?stack),
               remote_log := remote_log g @ build_calls (REGION g) stack_name (concat ps)\<rparr>"
  have stored: "STACK_LOOKUP ?g' stack_name = Some ?stack" by simp
  from retrieve_attribute_uncached_ok [OF assms(1) build_index_ok [OF assms(2,3)] stored]
  have s: "STACK_LOOKUP (snd (retrieve_attribute client lib stack_name path g)) stack_name =
             Some ?stack"
    by simp
  have d: "distinct (dict_keys ?stack)"
    by (rule set_entries_distinct) (simp add: dict_keys_def)
  have k: "set (dict_keys ?stack) = fst ` set ?entries"
    using set_entries_keys [of "[]" ?entries] by (simp add: dict_keys_def)
  have m: "\<forall>p. dict_get ?stack p = map_of (rev ?entries) p"
    by (simp add: dict_get_def set_entries_map_of)
  have f: "distinct (map fst ?entries) \<longrightarrow> ?stack = ?entries"
    using set_entries_fresh [of "[]" ?entries] by simp
  from s d k m f show ?thesis by blast
qed

theorem built_index_entries_witness:
  "STACK_LOOKUP ex_loaded ''Stack'' = None \<and>
   list_stack_resources ex_client (REGION ex_loaded) ''Stack'' = map Inr [[''A'', ''B'']] \<and>
   detail_ok ex_client ex_lib (REGION ex_loaded) ''Stack'' ''A'' \<and>
   detail_ok ex_client ex_lib (REGION ex_loaded) ''Stack'' ''B'' \<and>
   cdk_entries ex_client ex_lib (REGION ex_loaded) ''Stack'' (concat [[''A'', ''B'']]) =
     [(''Stack/A'', ''id1''), (''Stack/B'', ''id2'')] \<and>
   STACK_LOOKUP (snd (retrieve_attribute ex_client ex_lib ''Stack'' ''Stack/A'' ex_loaded))
     ''Stack'' = Some [(''Stack/A'', ''id1''), (''Stack/B'', ''id2'')]"
proof -
  have u: "STACK_LOOKUP ex_loaded ''Stack'' = None" by (simp add: ex_loaded_def)
  have p: "list_stack_resources ex_client (REGION ex_loaded) ''Stack'' = map Inr [[''A'', ''B'']]"
    by (simp add: ex_client_def ex_pages_def)
  have ok: "\<forall>idn \<in> set (concat [[''A'', ''B'']]).
              detail_ok ex_client ex_lib (REGION ex_loaded) ''Stack'' idn"
    by (simp add: detail_ok_def ex_client_def ex_lib_def ex_loads_def)
  have e: "cdk_entries ex_client ex_lib (REGION ex_loaded) ''Stack'' (concat [[''A'', ''B'']]) =
             [(''Stack/A'', ''id1''), (''Stack/B'', ''id2'')]"
    by code_simp
  show ?thesis
    using u p ok e built_index_entries [OF u p ok, of "''Stack/A''"]
    by auto
qed

section \<open>Sequences of calls\<close>

lemma retrieve_attribute_cases:
  obtains (unchanged) "snd (retrieve_attribute client lib stack_name path g) = g"
  | (built) ids stack where "STACK_LOOKUP g stack_name = None"
      and "REGION (snd (retrieve_attribute client lib stack_name path g)) = REGION g"
      and "remote_log (snd (retrieve_attribute client lib stack_name path g)) =
             remote_log g @ build_calls (REGION g) stack_name ids"
      and "STACK_LOOKUP (snd (retrieve_attribute client lib stack_name path g)) =
             (STACK_LOOKUP g)(stack_name \<mapsto> stack)"
  | (failed) ids where "STACK_LOOKUP g stack_name = None"
      and "REGION (snd (retrieve_attribute client lib stack_name path g)) = REGION g"
      and "remote_log (snd (retrieve_attribute client lib stack_name path g)) =
             remote_log g @ build_calls (REGION g) stack_name ids"
      and "STACK_LOOKUP (snd (retrieve_attribute client lib stack_name path g)) =
             STACK_LOOKUP g"
proof (cases "STACK_LOOKUP g stack_name")
  case (Some stack)
  with retrieve_attribute_effect [of client lib stack_name path g]
  have "snd (retrieve_attribute client lib stack_name path g) = g" by simp
  then show ?thesis by (rule unchanged)
next
  case None
  from retrieve_attribute_effect [of client lib stack_name path g] obtain ids stack where
    eff: "REGION (snd (retrieve_attribute client lib stack_name path g)) = REGION g \<and>
     (STACK_LOOKUP g stack_name \<noteq> None \<longrightarrow>
        snd (retrieve_attribute client lib stack_name path g) = g) \<and>
     (STACK_LOOKUP g stack_name = None \<longrightarrow>
        remote_log (snd (retrieve_attribute client lib stack_name path g)) =
          remote_log g @ build_calls (REGION g) stack_name ids \<and>
        (STACK_LOOKUP (snd (retrieve_attribute client lib stack_name path g)) = STACK_LOOKUP g \<or>
         STACK_LOOKUP (snd (retrieve_attribute client lib stack_name path g)) =
           (STACK_LOOKUP g)(stack_name \<mapsto> stack)))"
    by (elim exE)
  from eff have r: "REGION (snd (retrieve_attribute client lib stack_name path g)) = REGION g"
    by (rule conjunct1)
  from eff None have l: "remote_log (snd (retrieve_attribute client lib stack_name path g)) =
      remote_log g @ build_calls (REGION g) stack_name ids"
    by simp
  from eff None have
    "STACK_LOOKUP (snd (retrieve_attribute client lib stack_name path g)) = STACK_LOOKUP g \<or>
     STACK_LOOKUP (snd (retrieve_attribute client lib stack_name path g)) =
       (STACK_LOOKUP g)(stack_name \<mapsto> stack)"
    by simp
  then show ?thesis
  proof
    assume "STACK_LOOKUP (snd (retrieve_attribute client lib stack_name path g)) = STACK_LOOKUP g"
    with None r l show ?thesis by (rule failed)
  next
    assume "STACK_LOOKUP (snd (retrieve_attribute client lib stack_name path g)) =
      (STACK_LOOKUP g)(stack_name \<mapsto> stack)"
    with None r l show ?thesis by (rule built)
  qed
qed

lemma retrieve_attribute_keeps:
  assumes "STACK_LOOKUP g name = Some stack"
  shows "STACK_LOOKUP (snd (retrieve_attribute client lib stack_name path g)) name = Some stack"
proof (cases rule: retrieve_attribute_cases [of client lib stack_name path g])
  case unchanged
  then show ?thesis using assms by simp
next
  case (built ids stack')
  from built(1) assms have "name \<noteq> stack_name" by auto
  then show ?thesis using built(4) assms by simp
next
  case (failed ids)
  then show ?thesis using assms by simp
qed

lemma retrieve_attribute_region:
  "REGION (snd (retrieve_attribute client lib stack_name path g)) = REGION g"
  by (cases rule: retrieve_attribute_cases [of client lib stack_name path g]) simp_all

lemma build_calls_uncached:
  assumes "STACK_LOOKUP g stack_name = None" and "c \<in> set (build_calls (REGION g) stack_name ids)"
  shows "call_region c = REGION g \<and> STACK_LOOKUP g (call_stack c) = None"
  using assms build_calls_region [OF assms(2)] by simp

lemma retrieve_attribute_log:
  "\<exists>new. remote_log (snd (retrieve_attribute client lib stack_name path g)) = remote_log g @ new \<and>
     (\<forall>c \<in> set new. call_region c = REGION g \<and> STACK_LOOKUP g (call_stack c) = None)"
proof (cases rule: retrieve_attribute_cases [of client lib stack_name path g])
  case unchanged
  then have "remote_log (snd (retrieve_attribute client lib stack_name path g)) = remote_log g @ [] \<and>
     (\<forall>c \<in> set []. call_region c = REGION g \<and> STACK_LOOKUP g (call_stack c) = None)"
    by simp
  then show ?thesis by (rule exI)
next
  case (built ids stack)
  from built(3) build_calls_uncached [OF built(1)]
  have "remote_log (snd (retrieve_attribute client lib stack_name path g)) =
          remote_log g @ build_calls (REGION g) stack_name ids \<and>
        (\<forall>c \<in> set (build_calls (REGION g) stack_name ids).
           call_region c = REGION g \<and> STACK_LOOKUP g (call_stack c) = None)"
    by simp
  then show ?thesis by (rule exI)
next
  case (failed ids)
  from failed(3) build_calls_uncached [OF failed(1)]
  have "remote_log (snd (retrieve_attribute client lib stack_name path g)) =
          remote_log g @ build_calls (REGION g) stack_name ids \<and>
        (\<forall>c \<in> set (build_calls (REGION g) stack_name ids).
           call_region c = REGION g \<and> STACK_LOOKUP g (call_stack c) = None)"
    by simp
  then show ?thesis by (rule exI)
qed

lemma run_calls_keeps:
  "STACK_LOOKUP g name = Some stack \<Longrightarrow>
   STACK_LOOKUP (run_calls client lib calls g) name = Some stack"
proof (induction calls arbitrary: g)
  case Nil
  then show ?case by simp
next
  case (Cons call calls)
  obtain stack_name path where call: "call = (stack_name, path)" by (cases call)
  from retrieve_attribute_keeps [OF Cons.prems]
  have "STACK_LOOKUP (snd (retrieve_attribute client lib stack_name path g)) name = Some stack" .
  from Cons.IH [OF this] show ?case using call by simp
qed

lemma run_calls_region: "REGION (run_calls client lib calls g) = REGION g"
proof (induction calls arbitrary: g)
  case Nil
  show ?case by simp
next
  case (Cons call calls)
  obtain stack_name path where call: "call = (stack_name, path)" by (cases call)
  show ?case using call Cons.IH retrieve_attribute_region by simp
qed

lemma run_calls_log:
  "\<exists>new. remote_log (run_calls client lib calls g) = remote_log g @ new \<and>
     (\<forall>c \<in> set new. call_region c = REGION g \<and> STACK_LOOKUP g (call_stack c) = None)"
proof (induction calls arbitrary: g)
  case Nil
  show ?case by simp
next
  case (Cons call calls)
  obtain stack_name path where call: "call = (stack_name, path)" by (cases call)
  let ?g = "snd (retrieve_attribute client lib stack_name path g)"
  from retrieve_attribute_log [of client lib stack_name path g] obtain new1 where
    l1: "remote_log ?g = remote_log g @ new1"
    and c1: "\<forall>c \<in> set new1. call_region c = REGION g \<and> STACK_LOOKUP g (call_stack c) = None"
    by blast
  from Cons.IH [of ?g] obtain new2 where
    l2: "remote_log (run_calls client lib calls ?g) = remote_log ?g @ new2"
    and c2: "\<forall>c \<in> set new2. call_region c = REGION ?g \<and> STACK_LOOKUP ?g (call_stack c) = None"
    by blast
  have c2': "\<forall>c \<in> set new2. call_region c = REGION g \<and> STACK_LOOKUP g (call_stack c) = None"
  proof
    fix c assume c: "c \<in> set new2"
    with c2 have r: "call_region c = REGION ?g" and n: "STACK_LOOKUP ?g (call_stack c) = None"
      by simp_all
    have "STACK_LOOKUP g (call_stack c) = None"
    proof (cases "STACK_LOOKUP g (call_stack c)")
      case None
      then show ?thesis .
    next
      case (Some stack)
      from retrieve_attribute_keeps [OF Some, of client lib stack_name path] n
      show ?thesis by simp
    qed
    with r show "call_region c = REGION g \<and> STACK_LOOKUP g (call_stack c) = None"
      by (simp add: retrieve_attribute_region)
  qed
  have "remote_log (run_calls client lib (call # calls) g) = remote_log g @ (new1 @ new2)"
    using call l1 l2 by simp
  moreover have "\<forall>c \<in> set (new1 @ new2).
                   call_region c = REGION g \<and> STACK_LOOKUP g (call_stack c) = None"
    using c1 c2' by auto
  ultimately show ?case by blast
qed

section \<open>One build per stack name\<close>

text \<open>
  Claim C3, as stated, on a stack whose second detail fetch fails: the first call for the
  stack stores no index, and the second call for the same stack enumerates and fetches again.
\<close>

theorem rebuilt_after_failure_counterexample:
  "STACK_LOOKUP (snd (retrieve_attribute ex_failing ex_lib ''Stack'' ''Stack/A'' ex_loaded))
     ''Stack'' = None \<and>
   remote_log (snd (retrieve_attribute ex_failing ex_lib ''Stack'' ''Stack/A''
      (snd (retrieve_attribute ex_failing ex_lib ''Stack'' ''Stack/A'' ex_loaded)))) =
     [ListStackResources ''eu-west-1'' ''Stack'',
      DescribeStackResource ''eu-west-1'' ''Stack'' ''A'',
      DescribeStackResource ''eu-west-1'' ''Stack'' ''B'',
      ListStackResources ''eu-west-1'' ''Stack'',
      DescribeStackResource ''eu-west-1'' ''Stack'' ''A'',
      DescribeStackResource ''eu-west-1'' ''Stack'' ''B'']"
  by code_simp

text \<open>
  Claim C3, amended. A call for a stack name that has no index in the cache, during which the
  enumeration and every detail record go through, performs exactly one enumeration followed by
  one detail fetch per enumerated resource, in order, and stores the completed index. Once an
  index is stored for a stack name, a call for that name performs no remote call and leaves
  the state as it is; and after any sequence of later calls, for whatever stacks, the index
  stored for that name is the same and none of the remote calls made was for that name.
\<close>

theorem index_built_once:
  "(STACK_LOOKUP g stack_name = None \<and>
    list_stack_resources client (REGION g) stack_name = map Inr ps \<and>
    (\<forall>idn \<in> set (concat ps). detail_ok client lib (REGION g) stack_name idn) \<longrightarrow>
      remote_log (snd (retrieve_attribute client lib stack_name path g)) =
        remote_log g @ build_calls (REGION g) stack_name (concat ps) \<and>
      STACK_LOOKUP (snd (retrieve_attribute client lib stack_name path g)) =
        (STACK_LOOKUP g)(stack_name \<mapsto>
           set_entries [] (cdk_entries client lib (REGION g) stack_name (concat ps)))) \<and>
   (STACK_LOOKUP g stack_name = Some stack \<longrightarrow>
      snd (retrieve_attribute client lib stack_name path g) = g \<and>
      STACK_LOOKUP (run_calls client lib calls g) stack_name = Some stack \<and>
      (\<forall>c \<in> set (drop (length (remote_log g)) (remote_log (run_calls client lib calls g))).
         call_stack c \<noteq> stack_name))"
proof (intro conjI impI)
  assume a: "STACK_LOOKUP g stack_name = None \<and>
    list_stack_resources client (REGION g) stack_name = map Inr ps \<and>
    (\<forall>idn \<in> set (concat ps). detail_ok client lib (REGION g) stack_name idn)"
  let ?stack = "set_entries [] (cdk_entries client lib (REGION g) stack_name (concat ps))"
  let ?g' = "g\<lparr>STACK_LOOKUP := (STACK_LOOKUP g)(stack_name \<mapsto> ?stack),
               remote_log := remote_log g @ build_calls (REGION g) stack_name (concat ps)\<rparr>"
  from a have u: "STACK_LOOKUP g stack_name = None"
    and p: "list_stack_resources client (REGION g) stack_name = map Inr ps"
    and ok: "\<forall>idn \<in> set (concat ps). detail_ok client lib (REGION g) stack_name idn"
    by simp_all
  have stored: "STACK_LOOKUP ?g' stack_name = Some ?stack" by simp
  from retrieve_attribute_uncached_ok [OF u build_index_ok [OF p ok] stored]
  have s: "snd (retrieve_attribute client lib stack_name path g) = ?g'" by simp
  show "remote_log (snd (retrieve_attribute client lib stack_name path g)) =
          remote_log g @ build_calls (REGION g) stack_name (concat ps)"
    unfolding s by simp
  show "STACK_LOOKUP (snd (retrieve_attribute client lib stack_name path g)) =
          (STACK_LOOKUP g)(stack_name \<mapsto> ?stack)"
    unfolding s by simp
next
  assume c: "STACK_LOOKUP g stack_name = Some stack"
  show "snd (retrieve_attribute client lib stack_name path g) = g"
    using retrieve_attribute_cached [OF c] by simp
  show "STACK_LOOKUP (run_calls client lib calls g) stack_name = Some stack"
    by (rule run_calls_keeps [OF c])
  from run_calls_log [of client lib calls g] obtain new where
    l: "remote_log (run_calls client lib calls g) = remote_log g @ new"
    and n: "\<forall>c \<in> set new. call_region c = REGION g \<and> STACK_LOOKUP g (call_stack c) = None"
    by (elim exE conjE)
  show "\<forall>c \<in> set (drop (length (remote_log g)) (remote_log (run_calls client lib calls g))).
          call_stack c \<noteq> stack_name"
  proof
    fix c' assume "c' \<in> set (drop (length (remote_log g)) (remote_log (run_calls client lib calls g)))"
    then have "c' \<in> set new" unfolding l by simp
    with n have "STACK_LOOKUP g (call_stack c') = None" by simp
    with c show "call_stack c' \<noteq> stack_name" by auto
  qed
qed

theorem index_built_once_witness:
  "STACK_LOOKUP ex_loaded ''Stack'' = None \<and>
   list_stack_resources ex_client (REGION ex_loaded) ''Stack'' = map Inr [[''A'', ''B'']] \<and>
   detail_ok ex_client ex_lib (REGION ex_loaded) ''Stack'' ''A'' \<and>
   detail_ok ex_client ex_lib (REGION ex_loaded) ''Stack'' ''B'' \<and>
   remote_log (snd (retrieve_attribute ex_client ex_lib ''Stack'' ''Stack/A'' ex_loaded)) =
     [ListStackResources ''eu-west-1'' ''Stack'',
      DescribeStackResource ''eu-west-1'' ''Stack'' ''A'',
      DescribeStackResource ''eu-west-1'' ''Stack'' ''B''] \<and>
   STACK_LOOKUP ex_cached ''Stack'' = Some ex_index \<and>
   snd (retrieve_attribute ex_client ex_lib ''Stack'' ''Stack/B'' ex_cached) = ex_cached \<and>
   STACK_LOOKUP (run_calls ex_client ex_lib [(''Stack'', ''Stack/*''), (''Other'', ''Other/X'')]
      ex_cached) ''Stack'' = Some ex_index"
proof -
  have u: "STACK_LOOKUP ex_loaded ''Stack'' = None" by (simp add: ex_loaded_def)
  have p: "list_stack_resources ex_client (REGION ex_loaded) ''Stack'' = map Inr [[''A'', ''B'']]"
    by (simp add: ex_client_def ex_pages_def)
  have ok: "\<forall>idn \<in> set (concat [[''A'', ''B'']]).
              detail_ok ex_client ex_lib (REGION ex_loaded) ''Stack'' idn"
    by (simp add: detail_ok_def ex_client_def ex_lib_def ex_loads_def)
  have c: "STACK_LOOKUP ex_cached ''Stack'' = Some ex_index" by (simp add: ex_cached_def)
  have r: "REGION ex_loaded = ''eu-west-1''" "remote_log ex_loaded = []"
    by (simp_all add: ex_loaded_def)
  show ?thesis
    using u p ok c r
      index_built_once [where g = ex_loaded and stack_name = "''Stack''" and client = ex_client
        and lib = ex_lib and ps = "[[''A'', ''B'']]" and path = "''Stack/A''"]
      index_built_once [where g = ex_cached and stack_name = "''Stack''" and client = ex_client
        and lib = ex_lib and stack = ex_index and path = "''Stack/B''"
        and calls = "[(''Stack'', ''Stack/*''), (''Other'', ''Other/X'')]"]
    by (simp add: build_calls_def)
qed

section \<open>The region\<close>

text \<open>
  Claim C10. Loading \<^verbatim>\<open>cli.py\<close> raises whenever \<^verbatim>\<open>AWS_REGION\<close> is unset (with the message
  \<^verbatim>\<open>AWS_REGION not set\<close> when the imports went through). When the module loads,
  \<^verbatim>\<open>REGION\<close> is the value the variable had then, no call of the resolver changes it, and
  every remote call made by any sequence of resolver calls carries that region.
\<close>

theorem region_fixed_at_load:
  "(environ ''AWS_REGION'' = None \<longrightarrow>
      (\<exists>e. load_module import_error environ = Inl e) \<and>
      load_module None environ = Inl (Exception ''AWS_REGION not set'')) \<and>
   (load_module import_error environ = Inr g \<longrightarrow>
      environ ''AWS_REGION'' = Some (REGION g) \<and>
      REGION (run_calls client lib calls g) = REGION g \<and>
      (\<forall>c \<in> set (remote_log (run_calls client lib calls g)). call_region c = REGION g))"
proof (intro conjI impI)
  assume "environ ''AWS_REGION'' = None"
  then show "\<exists>e. load_module import_error environ = Inl e"
    and "load_module None environ = Inl (Exception ''AWS_REGION not set'')"
    by (simp_all add: load_module_def split: option.splits)
next
  assume l: "load_module import_error environ = Inr g"
  then show "environ ''AWS_REGION'' = Some (REGION g)"
    by (auto simp add: load_module_def split: option.splits)
  show "REGION (run_calls client lib calls g) = REGION g" by (rule run_calls_region)
  from l have empty: "remote_log g = []"
    by (auto simp add: load_module_def split: option.splits)
  from run_calls_log [of client lib calls g] obtain new where
    "remote_log (run_calls client lib calls g) = remote_log g @ new"
    and "\<forall>c \<in> set new. call_region c = REGION g \<and> STACK_LOOKUP g (call_stack c) = None"
    by (elim exE conjE)
  with empty show "\<forall>c \<in> set (remote_log (run_calls client lib calls g)). call_region c = REGION g"
    by simp
qed

theorem region_fixed_at_load_witness:
  "Map.empty ''AWS_REGION'' = (None :: string option) \<and>
   load_module None Map.empty = Inl (Exception ''AWS_REGION not set'') \<and>
   load_module None [''AWS_REGION'' \<mapsto> ''eu-west-1''] = Inr ex_loaded \<and>
   REGION ex_loaded = ''eu-west-1'' \<and>
   map call_region (remote_log (run_calls ex_client ex_lib
      [(''Stack'', ''Stack/A''), (''Other'', ''Other/X'')] ex_loaded)) =
     [''eu-west-1'', ''eu-west-1'', ''eu-west-1'', ''eu-west-1'']"
proof -
  have l: "load_module None [''AWS_REGION'' \<mapsto> ''eu-west-1''] = Inr ex_loaded"
    by (simp add: load_module_def ex_loaded_def)
  have r: "REGION ex_loaded = ''eu-west-1''" by (simp add: ex_loaded_def)
  have log: "remote_log (run_calls ex_client ex_lib
      [(''Stack'', ''Stack/A''), (''Other'', ''Other/X'')] ex_loaded) =
     [ListStackResources ''eu-west-1'' ''Stack'',
      DescribeStackResource ''eu-west-1'' ''Stack'' ''A'',
      DescribeStackResource ''eu-west-1'' ''Stack'' ''B'',
      ListStackResources ''eu-west-1'' ''Other'']"
    by code_simp
  show ?thesis
    using l r log
      region_fixed_at_load [where environ = Map.empty and import_error = None]
      region_fixed_at_load [where environ = "[''AWS_REGION'' \<mapsto> ''eu-west-1'']"
        and import_error = None and g = ex_loaded and client = ex_client and lib = ex_lib
        and calls = "[(''Stack'', ''Stack/A''), (''Other'', ''Other/X'')]"]
    by simp
qed

section \<open>One call as a function of its inputs\<close>

text \<open>
  The outcome of a call, and the index it leaves for the stack, depend on the service only
  through its answers for the module's region and this stack, and on the state only through
  \<^verbatim>\<open>REGION\<close> and the cache entry of this stack; the log of earlier calls plays no part.
\<close>

lemma find_paths_log_independent:
  "fst (find_paths client lib region stack_name ids stack path log) =
   fst (find_paths client lib region stack_name ids stack path log')"
proof (induction ids arbitrary: stack path log log')
  case Nil
  show ?case by simp
next
  case (Cons idn ids)
  show ?case
    using Cons.IH [of _ _ "log @ [DescribeStackResource region stack_name idn]"
        "log' @ [DescribeStackResource region stack_name idn]"]
    by (simp add: Let_def split: sum.splits option.splits)
qed

lemma find_paths_same_answers:
  assumes "\<forall>idn \<in> set ids. describe_stack_resource client region stack_name idn =
                            describe_stack_resource client' region stack_name idn"
  shows "find_paths client lib region stack_name ids stack path log =
         find_paths client' lib region stack_name ids stack path log"
  using assms
proof (induction ids arbitrary: stack path log)
  case Nil
  show ?case by simp
next
  case (Cons idn ids)
  from Cons.prems have same: "describe_stack_resource client region stack_name idn =
      describe_stack_resource client' region stack_name idn"
    and rest: "\<forall>i \<in> set ids. describe_stack_resource client region stack_name i =
      describe_stack_resource client' region stack_name i"
    by simp_all
  show ?case
    using same Cons.IH [OF rest]
    by (simp add: Let_def split: sum.splits option.splits)
qed

lemma retrieve_attribute_deterministic:
  assumes "REGION g = REGION g'" and "STACK_LOOKUP g stack_name = STACK_LOOKUP g' stack_name"
    and "list_stack_resources client (REGION g) stack_name =
         list_stack_resources client' (REGION g) stack_name"
    and "\<forall>idn. describe_stack_resource client (REGION g) stack_name idn =
               describe_stack_resource client' (REGION g) stack_name idn"
  shows "fst (retrieve_attribute client lib stack_name path g) =
         fst (retrieve_attribute client' lib stack_name path g') \<and>
         STACK_LOOKUP (snd (retrieve_attribute client lib stack_name path g)) stack_name =
         STACK_LOOKUP (snd (retrieve_attribute client' lib stack_name path g')) stack_name"
proof (cases "STACK_LOOKUP g stack_name")
  case (Some stack)
  then have "STACK_LOOKUP g' stack_name = Some stack" using assms(2) by simp
  from retrieve_attribute_cached [OF Some] retrieve_attribute_cached [OF this]
  show ?thesis using Some assms(2) by simp
next
  case None
  then have None': "STACK_LOOKUP g' stack_name = None" using assms(2) by simp
  let ?log = "remote_log g @ [ListStackResources (REGION g) stack_name]"
  let ?log' = "remote_log g' @ [ListStackResources (REGION g) stack_name]"
  show ?thesis
  proof (cases "collect_ids (list_stack_resources client (REGION g) stack_name) []")
    case (Inl e)
    then show ?thesis
      using None None' assms(1,3)
      by (simp add: retrieve_attribute_def build_index_def dom_def)
  next
    case (Inr ids)
    have same: "find_paths client' lib (REGION g) stack_name ids [] path ?log' =
                find_paths client lib (REGION g) stack_name ids [] path ?log'"
      by (rule find_paths_same_answers [symmetric]) (simp add: assms(4))
    have f: "fst (find_paths client lib (REGION g) stack_name ids [] path ?log) =
             fst (find_paths client lib (REGION g) stack_name ids [] path ?log')"
      by (rule find_paths_log_independent)
    obtain r l where r: "find_paths client lib (REGION g) stack_name ids [] path ?log = (r, l)"
      by (cases "find_paths client lib (REGION g) stack_name ids [] path ?log")
    obtain r' l' where r': "find_paths client lib (REGION g) stack_name ids [] path ?log' = (r', l')"
      by (cases "find_paths client lib (REGION g) stack_name ids [] path ?log'")
    from f r r' have eq: "r' = r" by simp
    show ?thesis
    proof (cases r)
      case (Inl e)
      then show ?thesis
        using None None' assms(1,3) Inr r r' eq same
        by (simp add: retrieve_attribute_def build_index_def dom_def del: find_paths.simps)
    next
      case (Inr built)
      obtain stack path' where "built = (stack, path')" by (cases built)
      with Inr show ?thesis
        using None None' assms(1,3) \<open>collect_ids _ [] = Inr ids\<close> r r' eq same
        by (simp add: retrieve_attribute_def build_index_def dom_def del: find_paths.simps)
    qed
  qed
qed

end
